theory Spec2Isabelle
  imports Main "HOL-Library.Sublist"
begin

text \<open>
  A model of \<open>scraper.py\<close>: the extraction of title, date and content from a parsed page,
  and the breadth-first crawl of \<open>scrape_website\<close> with its queue, visited set and
  results. The HTTP client, the HTML parser and \<open>urllib.parse\<close> are parameters.
\<close>

section \<open>Strings\<close>

text \<open>
  Python strings are modelled as \<open>string\<close>; a \<open>char\<close> stands for a code point below 256.
  \<open>isspace\<close> is \<open>str.isspace\<close> on that range: TAB, LF, VT, FF, CR, the separators
  0x1C..0x1F, the space, NEL (0x85) and NBSP (0xA0).
\<close>

definition isspace :: "char \<Rightarrow> bool" where
  "isspace c = (c \<in> set [CHR 0x09, CHR 0x0A, CHR 0x0B, CHR 0x0C, CHR 0x0D,
                          CHR 0x1C, CHR 0x1D, CHR 0x1E, CHR 0x1F, CHR 0x20,
                          CHR 0x85, CHR 0xA0])"

text \<open>\<open>s.strip()\<close>: leading and trailing whitespace removed.\<close>

definition py_strip :: "string \<Rightarrow> string" where
  "py_strip s = rev (dropWhile isspace (rev (dropWhile isspace s)))"

text \<open>\<open>s.startswith(p)\<close> and \<open>s.endswith(p)\<close>.\<close>

definition startswith :: "string \<Rightarrow> string \<Rightarrow> bool" where
  "startswith s p = (take (length p) s = p)"

definition endswith :: "string \<Rightarrow> string \<Rightarrow> bool" where
  "endswith s p = (length p \<le> length s \<and> drop (length s - length p) s = p)"

text \<open>Splitting at runs of whitespace, as the parser does for the \<open>class\<close> attribute.\<close>

fun split_ws :: "string \<Rightarrow> string \<Rightarrow> string list" where
  "split_ws cur [] = (if cur = [] then [] else [cur])"
| "split_ws cur (c # cs) =
     (if isspace c then (if cur = [] then [] else [cur]) @ split_ws [] cs
      else split_ws (cur @ [c]) cs)"

text \<open>\<open>str(i)\<close> for an integer: decimal digits, with a minus sign when negative.\<close>

fun digits :: "nat \<Rightarrow> string" where
  "digits n =
     (if n < 10 then [char_of (48 + n)]
      else digits (n div 10) @ [char_of (48 + n mod 10)])"

declare digits.simps [simp del]

definition str_int :: "int \<Rightarrow> string" where
  "str_int i = (if i < 0 then CHR ''-'' # digits (nat (- i)) else digits (nat i))"

section \<open>The parsed document\<close>

text \<open>
  \<open>BeautifulSoup(response.text, 'html.parser')\<close> is a collaborator; the model starts at the
  tree it returns. A node is a string (one that \<open>get_text\<close> returns) or a tag with its
  name, its attributes and its children. The soup object itself is the list of top-level
  nodes: \<open>html.parser\<close> adds no \<open>html\<close> or \<open>body\<close> element of its own.
\<close>

datatype node = Text string | Element string "(string \<times> string) list" "node list"

type_synonym soup = "node list"

text \<open>The tags below a node, the node itself first, in document order.\<close>

fun subtree_tags :: "node \<Rightarrow> node list" where
  "subtree_tags (Text s) = []"
| "subtree_tags (Element t a cs) = Element t a cs # concat (map subtree_tags cs)"

definition all_tags :: "soup \<Rightarrow> node list" where
  "all_tags d = concat (map subtree_tags d)"

text \<open>The tags strictly below a tag: what \<open>tag.find_all\<close> searches.\<close>

fun descendant_tags :: "node \<Rightarrow> node list" where
  "descendant_tags (Text s) = []"
| "descendant_tags (Element t a cs) = all_tags cs"

fun is_tag :: "string \<Rightarrow> node \<Rightarrow> bool" where
  "is_tag n (Text s) = False"
| "is_tag n (Element t a cs) = (t = n)"

text \<open>\<open>tag.get(k)\<close>: the attribute's value, or \<open>None\<close>.\<close>

fun get_attr :: "string \<Rightarrow> node \<Rightarrow> string option" where
  "get_attr k (Text s) = None"
| "get_attr k (Element t a cs) = map_of a k"

text \<open>
  An attribute filter of \<open>find\<close>. The parser keeps \<open>class\<close> as the list of its
  whitespace-separated tokens and the filter matches any one of them (a filter value without
  whitespace equals the joined list only when it is the single token); every other attribute
  used here is a plain string, compared as a whole.
\<close>

definition attr_matches :: "string \<Rightarrow> string \<Rightarrow> node \<Rightarrow> bool" where
  "attr_matches k v e =
     (case get_attr k e of
        None \<Rightarrow> False
      | Some w \<Rightarrow> if k = ''class'' then v \<in> set (split_ws [] w) else w = v)"

text \<open>\<open>soup.find(name, attrs)\<close>: the first tag in document order that matches, or \<open>None\<close>.\<close>

definition soup_find :: "(node \<Rightarrow> bool) \<Rightarrow> soup \<Rightarrow> node option" where
  "soup_find P d = List.find P (all_tags d)"

text \<open>\<open>tag.get_text()\<close>: all strings below the tag, concatenated.\<close>

fun get_text :: "node \<Rightarrow> string" where
  "get_text (Text s) = s"
| "get_text (Element t a cs) = concat (map get_text cs)"

section \<open>Exceptions\<close>

text \<open>
  The exceptions the program can meet, all subclasses of \<open>Exception\<close>: a missing key, an
  attribute read on \<open>None\<close>, and whatever a collaborator raises (request failures, bad
  status, malformed URLs), kept with its message.
\<close>

datatype exn = KeyError string | AttributeError string | Raised string

text \<open>\<open>str(e)\<close>: a \<open>KeyError\<close> prints the \<open>repr\<close> of its key.\<close>

fun str_exn :: "exn \<Rightarrow> string" where
  "str_exn (KeyError k) = [CHR 0x27] @ k @ [CHR 0x27]"
| "str_exn (AttributeError m) = m"
| "str_exn (Raised m) = m"

section \<open>Title\<close>

text \<open>\<open>tag['content']\<close>: raises \<open>KeyError\<close> when the attribute is missing.\<close>

definition getitem :: "node \<Rightarrow> string \<Rightarrow> exn + string" where
  "getitem e k = (case get_attr k e of None \<Rightarrow> Inl (KeyError k) | Some v \<Rightarrow> Inr v)"

text \<open>\<open>title or "Unknown Title"\<close>: \<open>None\<close> and the empty string are both falsy.\<close>

fun or_default :: "string option \<Rightarrow> string \<Rightarrow> string" where
  "or_default None dflt = dflt"
| "or_default (Some s) dflt = (if s = [] then dflt else s)"

definition is_og_title :: "node \<Rightarrow> bool" where
  "is_og_title e = (is_tag ''meta'' e \<and> attr_matches ''property'' ''og:title'' e)"

text \<open>
  \<open>extract_title\<close>: a tag object is always truthy, so each \<open>if\<close>/\<open>elif\<close> tests only
  that the element exists; the chosen branch assigns \<open>title\<close> and the chain ends.
\<close>

definition extract_title :: "soup \<Rightarrow> exn + string" where
  "extract_title d =
     (case soup_find (is_tag ''h1'') d of
        Some h \<Rightarrow> Inr (or_default (Some (py_strip (get_text h))) ''Unknown Title'')
      | None \<Rightarrow>
          (case soup_find is_og_title d of
             Some m \<Rightarrow>
               (case getitem m ''content'' of
                  Inl e \<Rightarrow> Inl e
                | Inr c \<Rightarrow> Inr (or_default (Some (py_strip c)) ''Unknown Title''))
           | None \<Rightarrow>
               (case soup_find (is_tag ''title'') d of
                  Some t \<Rightarrow> Inr (or_default (Some (py_strip (get_text t))) ''Unknown Title'')
                | None \<Rightarrow> Inr (or_default None ''Unknown Title''))))"

section \<open>Date\<close>

text \<open>The candidate locators of \<open>extract_date\<close>, in the source's order: tag, attribute, value.\<close>

definition date_elements :: "(string \<times> string \<times> string) list" where
  "date_elements =
     [(''meta'', ''property'', ''article:published_time''),
      (''meta'', ''name'', ''date''),
      (''meta'', ''name'', ''publication_date''),
      (''time'', ''class'', ''entry-date'')]"

fun truthy :: "string option \<Rightarrow> bool" where
  "truthy None = False"
| "truthy (Some s) = (s \<noteq> [])"

text \<open>
  The \<open>for\<close> loop of \<open>extract_date\<close>, with the variable \<open>date\<close> passed along: a falsy
  value found at one locator stays assigned while the loop goes on.
\<close>

fun date_loop :: "soup \<Rightarrow> (string \<times> string \<times> string) list \<Rightarrow> string option \<Rightarrow> string option" where
  "date_loop d [] cur = cur"
| "date_loop d ((tg, k, v) # rest) cur =
     (case soup_find (\<lambda>e. is_tag tg e \<and> attr_matches k v e) d of
        None \<Rightarrow> date_loop d rest cur
      | Some element \<Rightarrow>
          (let new = (if tg = ''meta'' then get_attr ''content'' element
                      else Some (py_strip (get_text element)))
           in if truthy new then new else date_loop d rest new))"

definition extract_date :: "soup \<Rightarrow> string" where
  "extract_date d = or_default (date_loop d date_elements None) ''Unknown Date''"

section \<open>Content\<close>

fun is_any_tag :: "string list \<Rightarrow> node \<Rightarrow> bool" where
  "is_any_tag ns (Text s) = False"
| "is_any_tag ns (Element t a cs) = (t \<in> set ns)"

text \<open>
  \<open>for element in soup([...]): element.decompose()\<close>: every tag with one of the names
  leaves the tree, at any depth, with all that is below it.
\<close>

fun decompose_below :: "string list \<Rightarrow> node \<Rightarrow> node" where
  "decompose_below ns (Text s) = Text s"
| "decompose_below ns (Element t a cs) =
     Element t a (map (decompose_below ns) (filter (\<lambda>c. \<not> is_any_tag ns c) cs))"

definition decompose_all :: "string list \<Rightarrow> soup \<Rightarrow> soup" where
  "decompose_all ns d = map (decompose_below ns) (filter (\<lambda>c. \<not> is_any_tag ns c) d)"

definition unwanted :: "string list" where
  "unwanted = [''script'', ''style'', ''nav'', ''footer'', ''header'']"

text \<open>
  \<open>soup.select_one(selector)\<close> for the selectors the source uses: a tag name, \<open>.class\<close>
  (the class is one of the tag's class tokens) or \<open>#id\<close>.
\<close>

fun matches_selector :: "string \<Rightarrow> node \<Rightarrow> bool" where
  "matches_selector [] e = False"
| "matches_selector (c # rest) e =
     (if c = CHR ''.'' then attr_matches ''class'' rest e
      else if c = CHR ''#'' then get_attr ''id'' e = Some rest
      else is_tag (c # rest) e)"

definition select_one :: "string \<Rightarrow> soup \<Rightarrow> node option" where
  "select_one sel d = soup_find (matches_selector sel) d"

definition selectors :: "string list" where
  "selectors = [''article'', ''main'', ''.content'', ''#content'', ''.post'', ''.article'']"

text \<open>The loop over the selectors: the first selector with a match wins.\<close>

fun first_container :: "soup \<Rightarrow> string list \<Rightarrow> node option" where
  "first_container d [] = None"
| "first_container d (sel # sels) =
     (case select_one sel d of
        Some container \<Rightarrow> Some container
      | None \<Rightarrow> first_container d sels)"

text \<open>\<open>if not content_container: content_container = soup.body\<close>, which may be \<open>None\<close>.\<close>

definition content_container :: "soup \<Rightarrow> node option" where
  "content_container d =
     (case first_container d selectors of
        Some container \<Rightarrow> Some container
      | None \<Rightarrow> soup_find (is_tag ''body'') d)"

text \<open>The loop over the paragraphs, with the string built so far.\<close>

fun paragraphs_loop :: "node list \<Rightarrow> string \<Rightarrow> string" where
  "paragraphs_loop [] acc = acc"
| "paragraphs_loop (p # ps) acc =
     (let text = py_strip (get_text p)
      in if text \<noteq> [] then paragraphs_loop ps (acc @ text @ [CHR 0x0A, CHR 0x0A])
         else paragraphs_loop ps acc)"

definition find_all_p :: "node \<Rightarrow> node list" where
  "find_all_p c = filter (is_tag ''p'') (descendant_tags c)"

definition none_find_all :: exn where
  "none_find_all =
     AttributeError ([CHR 0x27] @ ''NoneType'' @ [CHR 0x27] @ '' object has no attribute '' @
                     [CHR 0x27] @ ''find_all'' @ [CHR 0x27])"

text \<open>
  \<open>extract_content\<close> changes the tree it is given: the result carries the string and the
  tree as it is afterwards, from which the crawl then reads the links. With no container
  and no \<open>body\<close>, \<open>content_container.find_all\<close> is an attribute read on \<open>None\<close>.
\<close>

definition extract_content :: "soup \<Rightarrow> exn + (string \<times> soup)" where
  "extract_content d =
     (let d' = decompose_all unwanted d
      in case content_container d' of
           None \<Rightarrow> Inl none_find_all
         | Some c \<Rightarrow>
             (let body = paragraphs_loop (find_all_p c) []
              in Inr (if py_strip body = [] then py_strip (get_text c) else body, d')))"

section \<open>Collaborators\<close>

text \<open>
  What the crawl takes from its libraries, as parameters. \<open>http_get u\<close> stands for
  \<open>requests.get\<close>, \<open>raise_for_status\<close> and the parse of the response: the tree, or the
  exception raised. \<open>urljoin\<close> and \<open>urlparse\<close> are those of \<open>urllib.parse\<close>, which raise
  on some malformed URLs; of a parsed URL the crawl reads the scheme, the network location
  and the path.
\<close>

record parsed =
  scheme :: string
  netloc :: string
  path :: string

record web =
  http_get :: "string \<Rightarrow> exn + soup"
  urljoin :: "string \<Rightarrow> string \<Rightarrow> exn + string"
  urlparse :: "string \<Rightarrow> exn + parsed"

section \<open>The crawl\<close>

record page_data =
  title :: string
  date :: string
  link :: string
  content :: string

text \<open>
  The variables of \<open>scrape_website\<close>, and what it has printed. \<open>enqueued\<close> is a history
  variable the source does not have: it records every entry ever put on the queue, the
  seed first, and nothing reads it.
\<close>

record crawl_state =
  queue :: "(string \<times> int) list"
  visited :: "string set"
  results :: "page_data list"
  console :: "string list"
  enqueued :: "(string \<times> int) list"

definition initial :: "string \<Rightarrow> crawl_state" where
  "initial url =
     \<lparr>queue = [(url, 0)], visited = {url}, results = [], console = [], enqueued = [(url, 0)]\<rparr>"

definition denied_extensions :: "string list" where
  "denied_extensions = [''.pdf'', ''.jpg'', ''.png'', ''.gif'']"

text \<open>\<open>soup.find_all('a', href=True)\<close>, each read at \<open>link['href']\<close>.\<close>

definition hrefs :: "soup \<Rightarrow> string list" where
  "hrefs d = List.map_filter (\<lambda>e. if is_tag ''a'' e then get_attr ''href'' e else None) (all_tags d)"

text \<open>
  The body of the loop over the links up to the comment "Add to queue": \<open>Inr None\<close> where
  the source says \<open>continue\<close>, \<open>Inr (Some clean_url)\<close> where it goes on to add the URL.
\<close>

definition link_filter :: "web \<Rightarrow> string \<Rightarrow> string set \<Rightarrow> string \<Rightarrow> string \<Rightarrow> exn + string option" where
  "link_filter W base_domain seen current_url href =
     (case urljoin W current_url href of
        Inl e \<Rightarrow> Inl e
      | Inr next_url \<Rightarrow>
          if \<not> (startswith next_url ''http://'' \<or> startswith next_url ''https://'') then Inr None
          else
            (case urlparse W next_url of
               Inl e \<Rightarrow> Inl e
             | Inr parsed_next \<Rightarrow>
                 (let clean_url = scheme parsed_next @ ''://'' @ netloc parsed_next @ path parsed_next
                  in if clean_url \<in> seen then Inr None
                     else if netloc parsed_next \<noteq> base_domain then Inr None
                     else if list_ex (endswith clean_url) denied_extensions then Inr None
                     else Inr (Some clean_url))))"

text \<open>
  One pass of the loop over the links: the checks, then \<open>visited.add(clean_url)\<close> and
  \<open>queue.append((clean_url, depth + 1))\<close>.
\<close>

definition visit_link :: "web \<Rightarrow> string \<Rightarrow> string \<Rightarrow> int \<Rightarrow> string \<Rightarrow> crawl_state \<Rightarrow> exn + crawl_state" where
  "visit_link W base_domain current_url depth href st =
     (case link_filter W base_domain (visited st) current_url href of
        Inl e \<Rightarrow> Inl e
      | Inr None \<Rightarrow> Inr st
      | Inr (Some clean_url) \<Rightarrow>
          Inr (st\<lparr>visited := insert clean_url (visited st),
                  queue := queue st @ [(clean_url, depth + 1)],
                  enqueued := enqueued st @ [(clean_url, depth + 1)]\<rparr>))"

text \<open>
  The loop over the links. An exception leaves it at once; what was added before stays.
\<close>

fun discover_links :: "web \<Rightarrow> string \<Rightarrow> string \<Rightarrow> int \<Rightarrow> string list \<Rightarrow> crawl_state \<Rightarrow> crawl_state \<times> exn option" where
  "discover_links W base_domain current_url depth [] st = (st, None)"
| "discover_links W base_domain current_url depth (href # rest) st =
     (case visit_link W base_domain current_url depth href st of
        Inl e \<Rightarrow> (st, Some e)
      | Inr st' \<Rightarrow> discover_links W base_domain current_url depth rest st')"

definition scraping_line :: "crawl_state \<Rightarrow> int \<Rightarrow> string \<Rightarrow> string" where
  "scraping_line st max_pages current_url =
     ''Scraping page '' @ str_int (int (length (results st)) + 1) @ ''/'' @ str_int max_pages @
     '': '' @ current_url"

definition error_line :: "string \<Rightarrow> exn \<Rightarrow> string" where
  "error_line current_url e = ''Error processing '' @ current_url @ '': '' @ str_exn e"

text \<open>
  The statements of the \<open>try\<close> block from the request to the construction of
  \<open>page_data\<close>: the record and the tree as \<open>extract_content\<close> left it, or the first
  exception raised.
\<close>

definition fetch_and_extract :: "web \<Rightarrow> string \<Rightarrow> exn + (page_data \<times> soup)" where
  "fetch_and_extract W current_url =
     (case http_get W current_url of
        Inl e \<Rightarrow> Inl e
      | Inr soup0 \<Rightarrow>
          (case extract_title soup0 of
             Inl e \<Rightarrow> Inl e
           | Inr t \<Rightarrow>
               (let dt = extract_date soup0
                in case extract_content soup0 of
                     Inl e \<Rightarrow> Inl e
                   | Inr (c, soup1) \<Rightarrow>
                       Inr (\<lparr>title = t, date = dt, link = current_url, content = c\<rparr>, soup1))))"

text \<open>
  The \<open>try\<close> block for one page: the state where it ends, and the exception that ended
  it, if any.
\<close>

definition try_block :: "web \<Rightarrow> string \<Rightarrow> int \<Rightarrow> int \<Rightarrow> string \<Rightarrow> int \<Rightarrow> crawl_state \<Rightarrow> crawl_state \<times> exn option" where
  "try_block W base_domain max_pages max_depth current_url depth st =
     (let st1 = st\<lparr>console := console st @ [scraping_line st max_pages current_url]\<rparr>
      in case fetch_and_extract W current_url of
           Inl e \<Rightarrow> (st1, Some e)
         | Inr (page, soup1) \<Rightarrow>
             (let st2 = st1\<lparr>results := results st1 @ [page]\<rparr>
              in if depth < max_depth \<and> int (length (results st2)) < max_pages
                 then discover_links W base_domain current_url depth (hrefs soup1) st2
                 else (st2, None)))"

text \<open>\<open>try: ... except Exception as e: print(...)\<close>, after the entry was taken off the queue.\<close>

definition iteration :: "web \<Rightarrow> string \<Rightarrow> int \<Rightarrow> int \<Rightarrow> string \<Rightarrow> int \<Rightarrow> crawl_state \<Rightarrow> crawl_state" where
  "iteration W base_domain max_pages max_depth current_url depth st =
     (case try_block W base_domain max_pages max_depth current_url depth st of
        (st', None) \<Rightarrow> st'
      | (st', Some e) \<Rightarrow> st'\<lparr>console := console st' @ [error_line current_url e]\<rparr>)"

text \<open>
  One pass through the loop either adds one record, or leaves the records and the rest of
  the queue as they were. This is what makes the loop end.
\<close>

lemma visit_link_results:
  "visit_link W bd cur depth h st = Inr st' \<Longrightarrow> results st' = results st"
  by (auto simp: visit_link_def split: sum.splits option.splits)

lemma discover_links_results:
  "discover_links W bd cur depth hs st = (st', r) \<Longrightarrow> results st' = results st"
proof (induction hs arbitrary: st)
  case Nil
  then show ?case by simp
next
  case (Cons h hs)
  then show ?case
    by (auto split: sum.splits dest: visit_link_results)
qed

lemma try_block_progress:
  "try_block W bd mp md cur depth st = (st', r) \<Longrightarrow>
     length (results st') = Suc (length (results st)) \<or>
     (results st' = results st \<and> queue st' = queue st)"
  by (auto simp: try_block_def Let_def split: sum.splits prod.splits if_splits
      dest!: discover_links_results)

lemma iteration_progress:
  "length (results (iteration W bd mp md cur depth st)) = Suc (length (results st)) \<or>
   (results (iteration W bd mp md cur depth st) = results st \<and>
    queue (iteration W bd mp md cur depth st) = queue st)"
proof (cases "try_block W bd mp md cur depth st")
  case (Pair st' r)
  from try_block_progress [OF Pair] show ?thesis
    by (cases r) (auto simp: iteration_def Pair)
qed

text \<open>
  \<open>while queue and len(results) < max_pages:\<close> with \<open>queue.popleft()\<close> as its first
  statement.
\<close>

function crawl_loop :: "web \<Rightarrow> string \<Rightarrow> int \<Rightarrow> int \<Rightarrow> crawl_state \<Rightarrow> crawl_state" where
  "crawl_loop W base_domain max_pages max_depth st =
     (case queue st of
        [] \<Rightarrow> st
      | (current_url, depth) # rest \<Rightarrow>
          if int (length (results st)) < max_pages
          then crawl_loop W base_domain max_pages max_depth
                 (iteration W base_domain max_pages max_depth current_url depth (st\<lparr>queue := rest\<rparr>))
          else st)"
  by pat_completeness auto
termination
  apply (relation "measures [\<lambda>(W, bd, mp, md, st). nat (mp - int (length (results st))),
                             \<lambda>(W, bd, mp, md, st). length (queue st)]")
   apply simp
  subgoal for W bd mp md st e rest cur depth
    using iteration_progress [of W bd mp md cur depth "st\<lparr>queue := rest\<rparr>"]
    by auto
  done

declare crawl_loop.simps [simp del]

text \<open>
  What a call of \<open>scrape_website\<close> leaves: the list it returns, the file it wrote (path
  and the list dumped into it) and the lines it printed.
\<close>

record outcome =
  returned :: "page_data list"
  written :: "string \<times> page_data list"
  printed :: "string list"

text \<open>
  \<open>scrape_website\<close>. The parse of the seed URL stands before the loop, outside any
  \<open>try\<close>: an exception there ends the call.
\<close>

definition scrape_website :: "web \<Rightarrow> string \<Rightarrow> int \<Rightarrow> int \<Rightarrow> string \<Rightarrow> exn + outcome" where
  "scrape_website W url max_pages max_depth output_file =
     (case urlparse W url of
        Inl e \<Rightarrow> Inl e
      | Inr parsed_url \<Rightarrow>
          (let st = crawl_loop W (netloc parsed_url) max_pages max_depth (initial url)
           in Inr \<lparr>returned = results st,
                   written = (output_file, results st),
                   printed = console st @
                     [''Scraped '' @ str_int (int (length (results st))) @ '' pages'',
                      ''Results saved to '' @ output_file]\<rparr>))"

text \<open>
  The states the loop passes through at its head, from the seed: the state before the
  first test of the loop condition, and the state after each pass.
\<close>

inductive reach :: "web \<Rightarrow> string \<Rightarrow> int \<Rightarrow> int \<Rightarrow> string \<Rightarrow> crawl_state \<Rightarrow> bool"
  for W :: web and base_domain :: string and max_pages :: int and max_depth :: int and url :: string
  where
    start: "reach W base_domain max_pages max_depth url (initial url)"
  | pass: "reach W base_domain max_pages max_depth url st \<Longrightarrow>
           queue st = (current_url, depth) # rest \<Longrightarrow>
           int (length (results st)) < max_pages \<Longrightarrow>
           reach W base_domain max_pages max_depth url
             (iteration W base_domain max_pages max_depth current_url depth (st\<lparr>queue := rest\<rparr>))"

section \<open>Auxiliary notions\<close>

text \<open>
  The content as the specification words it, to compare with the loop of the source: the
  trimmed text of every \<open>p\<close> below the container, in document order, the empty ones
  skipped, each followed by a double newline.
\<close>

definition double_newline :: string where
  "double_newline = [CHR 0x0A, CHR 0x0A]"

definition paragraphs_text :: "node \<Rightarrow> string" where
  "paragraphs_text c =
     concat (map (\<lambda>t. t @ double_newline)
               (filter (\<lambda>t. t \<noteq> []) (map (\<lambda>p. py_strip (get_text p)) (find_all_p c))))"

text \<open>
  The entries \<open>new\<close> were added between \<open>st\<close> and \<open>st'\<close>: the same entries went to the back
  of the queue and of the history, their URLs went to the visited set, they were not in
  it before, they are pairwise different, and their depth is \<open>depth + 1\<close>.
\<close>

definition adds :: "int \<Rightarrow> crawl_state \<Rightarrow> (string \<times> int) list \<Rightarrow> crawl_state \<Rightarrow> bool" where
  "adds depth st new st' \<longleftrightarrow>
     enqueued st' = enqueued st @ new \<and> queue st' = queue st @ new \<and>
     visited st' = visited st \<union> fst ` set new \<and>
     distinct (map fst new) \<and> fst ` set new \<inter> visited st = {} \<and>
     snd ` set new \<subseteq> {depth + 1}"

text \<open>Name and attributes of a tag: all that the selectors and \<open>is_tag\<close> look at.\<close>

fun head_of :: "node \<Rightarrow> (string \<times> (string \<times> string) list) option" where
  "head_of (Text s) = None"
| "head_of (Element t a cs) = Some (t, a)"

section \<open>Example pages and an example site\<close>

text \<open>A page with a blank \<open>h1\<close>, an \<open>og:title\<close> and a \<open>title\<close>.\<close>

definition blank_h1_page :: soup where
  "blank_h1_page =
     [Element ''h1'' [] [Text '' ''],
      Element ''meta'' [(''property'', ''og:title''), (''content'', ''Meta Title'')] [],
      Element ''title'' [] [Text ''Page Title'']]"

text \<open>A page whose only metadata is a blank \<open>title\<close>.\<close>

definition blank_title_page :: soup where
  "blank_title_page = [Element ''title'' [] [Text '' '']]"

text \<open>Pages for the other branches of the title chain, and the page with three paragraphs.\<close>

definition og_page :: soup where
  "og_page =
     [Element ''meta'' [(''property'', ''og:title''), (''content'', '' Meta Title '')] [],
      Element ''title'' [] [Text ''Page Title'']]"

definition title_page :: soup where
  "title_page =
     [Element ''html'' []
        [Element ''head'' [] [Element ''title'' [] [Text ''Page Title'']],
         Element ''body'' [] [Element ''h2'' [] [Text ''Hello'']]]]"

definition three_paragraphs :: soup where
  "three_paragraphs =
     [Element ''article'' []
        [Element ''p'' [] [Text ''A''], Element ''p'' [] [Text []], Element ''p'' [] [Text ''B'']]]"

text \<open>
  A small site for the examples. Its home page links, below a \<open>nav\<close>, to \<open>/nav\<close>, and
  in its body to \<open>/a\<close> (whose request times out), to \<open>/b\<close> (a page with neither a
  container nor a \<open>body\<close>), to another host, to \<open>/doc.pdf\<close>, to \<open>/DOC.PDF\<close>, to \<open>/a\<close>
  again and to a mail address. All links are absolute, so \<open>urljoin\<close> returns them as they
  are; \<open>example_urlparse\<close> lists what \<open>urlparse\<close> returns for the URLs of the example.
\<close>

definition home_page :: soup where
  "home_page =
     [Element ''html'' []
        [Element ''head'' [] [Element ''title'' [] [Text ''Home'']],
         Element ''body'' []
           [Element ''nav'' [] [Element ''a'' [(''href'', ''http://example.com/nav'')] [Text ''Nav'']],
            Element ''h1'' [] [Text ''Welcome''],
            Element ''p'' [] [Text ''Hello.''],
            Element ''a'' [(''href'', ''http://example.com/a'')] [Text ''A''],
            Element ''a'' [(''href'', ''http://example.com/b'')] [Text ''B''],
            Element ''a'' [(''href'', ''http://blog.example.com/x'')] [Text ''Blog''],
            Element ''a'' [(''href'', ''http://example.com/doc.pdf'')] [Text ''Paper''],
            Element ''a'' [(''href'', ''http://example.com/DOC.PDF'')] [Text ''Scan''],
            Element ''a'' [(''href'', ''http://example.com/a'')] [Text ''A again''],
            Element ''a'' [(''href'', ''mailto:me@example.com'')] [Text ''Mail'']]]]"

definition bare_page :: soup where
  "bare_page = [Element ''h1'' [] [Text ''B''], Text ''no body here'']"

definition example_urlparse :: "string \<Rightarrow> exn + parsed" where
  "example_urlparse u =
     (if u = ''http://example.com''
      then Inr \<lparr>scheme = ''http'', netloc = ''example.com'', path = []\<rparr>
      else if u = ''http://example.com/a''
      then Inr \<lparr>scheme = ''http'', netloc = ''example.com'', path = ''/a''\<rparr>
      else if u = ''http://example.com/b''
      then Inr \<lparr>scheme = ''http'', netloc = ''example.com'', path = ''/b''\<rparr>
      else if u = ''http://blog.example.com/x''
      then Inr \<lparr>scheme = ''http'', netloc = ''blog.example.com'', path = ''/x''\<rparr>
      else if u = ''http://example.com/doc.pdf''
      then Inr \<lparr>scheme = ''http'', netloc = ''example.com'', path = ''/doc.pdf''\<rparr>
      else if u = ''http://example.com/DOC.PDF''
      then Inr \<lparr>scheme = ''http'', netloc = ''example.com'', path = ''/DOC.PDF''\<rparr>
      else Inl (Raised ''not a URL of the example''))"

definition example_get :: "string \<Rightarrow> exn + soup" where
  "example_get u =
     (if u = ''http://example.com'' then Inr home_page
      else if u = ''http://example.com/a'' then Inl (Raised ''Read timed out.'')
      else if u = ''http://example.com/b'' then Inr bare_page
      else if u = ''http://example.com/DOC.PDF'' then Inr three_paragraphs
      else Inl (Raised ''404 Client Error''))"

definition example_web :: web where
  "example_web =
     \<lparr>http_get = example_get, urljoin = (\<lambda>b h. Inr h), urlparse = example_urlparse\<rparr>"

text \<open>The seed, the two records the crawl of the site gathers, and two of its states.\<close>

definition seed :: string where
  "seed = ''http://example.com''"

definition home_record :: page_data where
  "home_record =
     \<lparr>title = ''Welcome'', date = ''Unknown Date'', link = ''http://example.com'',
      content = ''Hello.'' @ [CHR 0x0A, CHR 0x0A]\<rparr>"

definition scan_record :: page_data where
  "scan_record =
     \<lparr>title = ''Unknown Title'', date = ''Unknown Date'', link = ''http://example.com/DOC.PDF'',
      content = [CHR ''A'', CHR 0x0A, CHR 0x0A, CHR ''B'', CHR 0x0A, CHR 0x0A]\<rparr>"

definition after_first_link :: crawl_state where
  "after_first_link =
     \<lparr>queue = [(''http://example.com/a'', 1)],
      visited = {''http://example.com'', ''http://example.com/a''},
      results = [home_record],
      console = [''Scraping page 1/20: http://example.com''],
      enqueued = [(''http://example.com'', 0), (''http://example.com/a'', 1)]\<rparr>"

definition after_home :: crawl_state where
  "after_home =
     \<lparr>queue = [(''http://example.com/a'', 1), (''http://example.com/b'', 1),
               (''http://example.com/DOC.PDF'', 1)],
      visited = {''http://example.com'', ''http://example.com/a'', ''http://example.com/b'',
                 ''http://example.com/DOC.PDF''},
      results = [home_record],
      console = [''Scraping page 1/20: http://example.com''],
      enqueued = [(''http://example.com'', 0), (''http://example.com/a'', 1),
                  (''http://example.com/b'', 1), (''http://example.com/DOC.PDF'', 1)]\<rparr>"

section \<open>Title extraction\<close>

text \<open>
  C1, as stated, fails: on a page whose first \<open>h1\<close> has blank text the title is not the
  empty string. The final \<open>title or "Unknown Title"\<close> replaces it.
\<close>

theorem blank_h1_counterexample:
  "soup_find (is_tag ''h1'') blank_h1_page = Some (Element ''h1'' [] [Text '' '']) \<and>
   py_strip (get_text (Element ''h1'' [] [Text '' ''])) = [] \<and>
   extract_title blank_h1_page \<noteq> Inr []"
  by (simp add: blank_h1_page_def soup_find_def all_tags_def py_strip_def isspace_def
      extract_title_def)

text \<open>
  C1, amended: when the first \<open>h1\<close> exists and its trimmed text is empty, the title is the
  literal \<open>Unknown Title\<close>, whatever \<open>og:title\<close> and \<open>title\<close> the page has: there is no
  fallback to them.
\<close>

theorem extract_title_blank_h1:
  "soup_find (is_tag ''h1'') d = Some h \<Longrightarrow> py_strip (get_text h) = [] \<Longrightarrow>
   extract_title d = Inr ''Unknown Title''"
  by (simp add: extract_title_def)

theorem extract_title_blank_h1_witness:
  "soup_find (is_tag ''h1'') blank_h1_page = Some (Element ''h1'' [] [Text '' '']) \<and>
   py_strip (get_text (Element ''h1'' [] [Text '' ''])) = [] \<and>
   soup_find is_og_title blank_h1_page =
     Some (Element ''meta'' [(''property'', ''og:title''), (''content'', ''Meta Title'')] []) \<and>
   extract_title blank_h1_page = Inr ''Unknown Title''"
proof -
  have f: "soup_find (is_tag ''h1'') blank_h1_page = Some (Element ''h1'' [] [Text '' ''])"
    by (simp add: blank_h1_page_def soup_find_def all_tags_def)
  have s: "py_strip (get_text (Element ''h1'' [] [Text '' ''])) = []"
    by (simp add: py_strip_def isspace_def)
  have m: "soup_find is_og_title blank_h1_page =
     Some (Element ''meta'' [(''property'', ''og:title''), (''content'', ''Meta Title'')] [])"
    by (simp add: blank_h1_page_def soup_find_def all_tags_def is_og_title_def attr_matches_def)
  from extract_title_blank_h1 [OF f s] f s m show ?thesis by simp
qed

text \<open>
  C7, as stated, fails: with no \<open>h1\<close> and no \<open>og:title\<close>, a \<open>title\<close> element exists, and
  the result is neither its text nor its trimmed text.
\<close>

theorem blank_title_counterexample:
  "soup_find (is_tag ''h1'') blank_title_page = None \<and>
   soup_find is_og_title blank_title_page = None \<and>
   soup_find (is_tag ''title'') blank_title_page = Some (Element ''title'' [] [Text '' '']) \<and>
   extract_title blank_title_page \<noteq> Inr (get_text (Element ''title'' [] [Text '' ''])) \<and>
   extract_title blank_title_page \<noteq> Inr (py_strip (get_text (Element ''title'' [] [Text '' ''])))"
  by (simp add: blank_title_page_def soup_find_def all_tags_def is_og_title_def py_strip_def
      isspace_def extract_title_def)

text \<open>
  C7, amended: the first existing one of the first \<open>h1\<close>, the first
  \<open>meta property="og:title"\<close> (one that has a \<open>content\<close> attribute) and the first
  \<open>title\<close> is chosen; the title is its trimmed text (for the \<open>meta\<close>, its trimmed
  \<open>content\<close>) when that is not empty, and the literal \<open>Unknown Title\<close> when it is empty or
  when none of the three exists. The two examples of the claim hold.
\<close>

theorem extract_title_chain:
  "(soup_find (is_tag ''h1'') d = Some h \<longrightarrow>
      extract_title d =
        Inr (if py_strip (get_text h) = [] then ''Unknown Title'' else py_strip (get_text h))) \<and>
   (soup_find (is_tag ''h1'') d = None \<and> soup_find is_og_title d = Some m \<and>
    get_attr ''content'' m = Some c \<longrightarrow>
      extract_title d = Inr (if py_strip c = [] then ''Unknown Title'' else py_strip c)) \<and>
   (soup_find (is_tag ''h1'') d = None \<and> soup_find is_og_title d = None \<and>
    soup_find (is_tag ''title'') d = Some t \<longrightarrow>
      extract_title d =
        Inr (if py_strip (get_text t) = [] then ''Unknown Title'' else py_strip (get_text t))) \<and>
   (soup_find (is_tag ''h1'') d = None \<and> soup_find is_og_title d = None \<and>
    soup_find (is_tag ''title'') d = None \<longrightarrow>
      extract_title d = Inr ''Unknown Title'') \<and>
   extract_title [Element ''h1'' [] [Text ''Hello'']] = Inr ''Hello'' \<and>
   extract_title [Element ''meta'' [(''property'', ''og:title''), (''content'', ''Meta Title'')] []]
     = Inr ''Meta Title''"
proof -
  have ex1: "extract_title [Element ''h1'' [] [Text ''Hello'']] = Inr ''Hello''"
    by (simp add: extract_title_def soup_find_def all_tags_def py_strip_def isspace_def)
  have ex2:
    "extract_title [Element ''meta'' [(''property'', ''og:title''), (''content'', ''Meta Title'')] []]
       = Inr ''Meta Title''"
    by (simp add: extract_title_def soup_find_def all_tags_def py_strip_def isspace_def
        is_og_title_def attr_matches_def getitem_def)
  show ?thesis
    using ex1 ex2 by (simp add: extract_title_def getitem_def)
qed

theorem extract_title_chain_witness:
  "soup_find (is_tag ''h1'') [Element ''h1'' [] [Text ''Hello'']] =
     Some (Element ''h1'' [] [Text ''Hello'']) \<and>
   extract_title [Element ''h1'' [] [Text ''Hello'']] = Inr ''Hello'' \<and>
   soup_find (is_tag ''h1'') og_page = None \<and>
   soup_find is_og_title og_page =
     Some (Element ''meta'' [(''property'', ''og:title''), (''content'', '' Meta Title '')] []) \<and>
   extract_title og_page = Inr ''Meta Title'' \<and>
   soup_find is_og_title title_page = None \<and>
   soup_find (is_tag ''title'') title_page = Some (Element ''title'' [] [Text ''Page Title'']) \<and>
   extract_title title_page = Inr ''Page Title'' \<and>
   soup_find (is_tag ''title'') [Text ''Hello''] = None \<and>
   extract_title [Text ''Hello''] = Inr ''Unknown Title''"
proof -
  let ?h = "Element ''h1'' [] [Text ''Hello'']"
  let ?m = "Element ''meta'' [(''property'', ''og:title''), (''content'', '' Meta Title '')] []"
  let ?t = "Element ''title'' [] [Text ''Page Title'']"
  have a: "soup_find (is_tag ''h1'') [?h] = Some ?h"
    by (simp add: soup_find_def all_tags_def)
  have b: "soup_find (is_tag ''h1'') og_page = None" "soup_find is_og_title og_page = Some ?m"
    "get_attr ''content'' ?m = Some '' Meta Title ''"
    by (simp_all add: og_page_def soup_find_def all_tags_def is_og_title_def attr_matches_def)
  have c: "soup_find (is_tag ''h1'') title_page = None" "soup_find is_og_title title_page = None"
    "soup_find (is_tag ''title'') title_page = Some ?t"
    by (simp_all add: title_page_def soup_find_def all_tags_def is_og_title_def attr_matches_def)
  have d: "soup_find (is_tag ''h1'') [Text ''Hello''] = None"
    "soup_find is_og_title [Text ''Hello''] = None"
    "soup_find (is_tag ''title'') [Text ''Hello''] = None"
    by (simp_all add: soup_find_def all_tags_def)
  have s: "py_strip ''Hello'' = ''Hello''" "py_strip '' Meta Title '' = ''Meta Title''"
    "py_strip ''Page Title'' = ''Page Title''"
    by (simp_all add: py_strip_def isspace_def)
  from extract_title_chain [of "[?h]" ?h]
    extract_title_chain [of og_page _ ?m "'' Meta Title ''"]
    extract_title_chain [of title_page _ _ _ ?t]
    extract_title_chain [of "[Text ''Hello'']"]
    a b c d s
  show ?thesis by simp
qed

section \<open>Content extraction\<close>

lemma paragraphs_loop_concat:
  "paragraphs_loop ps acc =
     acc @ concat (map (\<lambda>t. t @ [CHR 0x0A, CHR 0x0A])
                    (filter (\<lambda>t. t \<noteq> []) (map (\<lambda>p. py_strip (get_text p)) ps)))"
  by (induction ps arbitrary: acc) (simp_all add: Let_def)

lemma py_strip_empty_iff: "py_strip s = [] \<longleftrightarrow> list_all isspace s"
proof
  assume "py_strip s = []"
  then have all: "\<forall>x\<in>set (dropWhile isspace s). isspace x"
    by (simp add: py_strip_def)
  have "dropWhile isspace s = []"
  proof (rule ccontr)
    assume ne: "dropWhile isspace s \<noteq> []"
    then have "\<not> isspace (hd (dropWhile isspace s))" by (rule hd_dropWhile)
    moreover from ne have "hd (dropWhile isspace s) \<in> set (dropWhile isspace s)" by simp
    ultimately show False using all by blast
  qed
  then show "list_all isspace s"
    by (simp add: list_all_iff)
next
  assume "list_all isspace s"
  then have "dropWhile isspace s = []"
    by (simp add: list_all_iff)
  then show "py_strip s = []"
    unfolding py_strip_def by (simp only: rev.simps dropWhile.simps)
qed

text \<open>
  C8: where a container is selected, \<open>extract_content\<close> returns that concatenation, and
  the trimmed text of the whole container when the concatenation is empty or all
  whitespace. The witness is the example of the claim: paragraphs \<open>A\<close>, empty, \<open>B\<close>.
\<close>

theorem extract_content_paragraphs:
  "content_container (decompose_all unwanted d) = Some c \<Longrightarrow>
   extract_content d =
     Inr (if paragraphs_text c = [] \<or> list_all isspace (paragraphs_text c)
          then py_strip (get_text c) else paragraphs_text c,
          decompose_all unwanted d)"
  by (simp add: extract_content_def Let_def paragraphs_loop_concat paragraphs_text_def
      double_newline_def py_strip_empty_iff)

theorem extract_content_paragraphs_witness:
  "content_container (decompose_all unwanted three_paragraphs) =
     Some (Element ''article'' []
        [Element ''p'' [] [Text ''A''], Element ''p'' [] [Text []], Element ''p'' [] [Text ''B'']]) \<and>
   extract_content three_paragraphs =
     Inr ([CHR ''A'', CHR 0x0A, CHR 0x0A, CHR ''B'', CHR 0x0A, CHR 0x0A], three_paragraphs)"
proof -
  let ?c = "Element ''article'' []
        [Element ''p'' [] [Text ''A''], Element ''p'' [] [Text []], Element ''p'' [] [Text ''B'']]"
  have d: "decompose_all unwanted three_paragraphs = three_paragraphs"
    by (simp add: decompose_all_def unwanted_def three_paragraphs_def)
  have c: "content_container (decompose_all unwanted three_paragraphs) = Some ?c"
    unfolding d
    by (simp add: three_paragraphs_def content_container_def selectors_def select_one_def
        soup_find_def all_tags_def)
  have p: "paragraphs_text ?c = [CHR ''A'', CHR 0x0A, CHR 0x0A, CHR ''B'', CHR 0x0A, CHR 0x0A]"
    by (simp add: paragraphs_text_def find_all_p_def all_tags_def py_strip_def isspace_def
        double_newline_def)
  have n: "\<not> isspace CHR ''A''" by (simp add: isspace_def)
  from extract_content_paragraphs [OF c] c show ?thesis
    unfolding p d using n by simp
qed

section \<open>The crawl: what one pass changes\<close>

lemma adds_refl: "adds depth st [] st"
  by (simp add: adds_def)

lemma adds_trans:
  "adds depth st new st' \<Longrightarrow> adds depth st' new' st'' \<Longrightarrow> adds depth st (new @ new') st''"
  by (auto simp: adds_def)

lemma visit_link_cases:
  assumes "visit_link W bd cur depth h st = Inr st'"
  shows "st' = st \<or>
         (\<exists>u. u \<notin> visited st \<and>
              st' = st\<lparr>visited := insert u (visited st),
                        queue := queue st @ [(u, depth + 1)],
                        enqueued := enqueued st @ [(u, depth + 1)]\<rparr>)"
proof (cases "link_filter W bd (visited st) cur h")
  case (Inl e)
  with assms show ?thesis by (simp add: visit_link_def)
next
  case (Inr r)
  show ?thesis
  proof (cases r)
    case None
    with Inr assms show ?thesis by (simp add: visit_link_def)
  next
    case (Some u)
    from Inr Some have "u \<notin> visited st"
      by (auto simp: link_filter_def Let_def split: sum.splits if_splits)
    moreover from Inr Some assms
    have "st' = st\<lparr>visited := insert u (visited st),
                    queue := queue st @ [(u, depth + 1)],
                    enqueued := enqueued st @ [(u, depth + 1)]\<rparr>"
      by (simp add: visit_link_def)
    ultimately show ?thesis by blast
  qed
qed

lemma visit_link_adds:
  assumes "visit_link W bd cur depth h st = Inr st'"
  shows "\<exists>new. adds depth st new st'"
proof -
  from visit_link_cases [OF assms] show ?thesis
  proof
    assume "st' = st"
    then show ?thesis using adds_refl by blast
  next
    assume "\<exists>u. u \<notin> visited st \<and>
              st' = st\<lparr>visited := insert u (visited st),
                        queue := queue st @ [(u, depth + 1)],
                        enqueued := enqueued st @ [(u, depth + 1)]\<rparr>"
    then obtain u where "u \<notin> visited st"
      and "st' = st\<lparr>visited := insert u (visited st),
                        queue := queue st @ [(u, depth + 1)],
                        enqueued := enqueued st @ [(u, depth + 1)]\<rparr>"
      by blast
    then have "adds depth st [(u, depth + 1)] st'"
      by (simp add: adds_def)
    then show ?thesis by blast
  qed
qed

lemma discover_links_adds:
  "discover_links W bd cur depth hs st = (st', r) \<Longrightarrow> \<exists>new. adds depth st new st'"
proof (induction hs arbitrary: st)
  case Nil
  then show ?case using adds_refl by auto
next
  case (Cons h hs)
  show ?case
  proof (cases "visit_link W bd cur depth h st")
    case (Inl e)
    with Cons.prems have "st' = st" by simp
    then show ?thesis using adds_refl by blast
  next
    case (Inr st1)
    with Cons.prems have "discover_links W bd cur depth hs st1 = (st', r)" by simp
    from Cons.IH [OF this] obtain new' where "adds depth st1 new' st'" by blast
    moreover from visit_link_adds [OF Inr] obtain new where "adds depth st new st1" by blast
    ultimately show ?thesis using adds_trans by blast
  qed
qed

text \<open>
  One \<open>try\<close> block adds entries only through the loop over the links, which runs only
  when \<open>depth < max_depth\<close> and, after the record was appended, the page budget is not used
  up.
\<close>

lemma try_block_adds:
  assumes "try_block W bd mp md cur depth st = (st', r)"
  shows "\<exists>new. adds depth st new st' \<and>
               (new \<noteq> [] \<longrightarrow> depth < md \<and> int (length (results st')) < mp)"
proof (cases "fetch_and_extract W cur")
  case (Inl e)
  with assms have "st' = st\<lparr>console := console st @ [scraping_line st mp cur]\<rparr>"
    by (simp add: try_block_def)
  then have "adds depth st [] st'" by (simp add: adds_def)
  then show ?thesis by blast
next
  case (Inr ps)
  obtain page soup1 where ps: "ps = (page, soup1)" by (cases ps)
  let ?st2 = "st\<lparr>console := console st @ [scraping_line st mp cur],
                  results := results st @ [page]\<rparr>"
  show ?thesis
  proof (cases "depth < md \<and> int (length (results ?st2)) < mp")
    case True
    with assms Inr ps
    have d: "discover_links W bd cur depth (hrefs soup1) ?st2 = (st', r)"
      by (simp add: try_block_def Let_def)
    from discover_links_adds [OF d] obtain new where "adds depth ?st2 new st'" by blast
    then have "adds depth st new st'" by (simp add: adds_def)
    moreover from discover_links_results [OF d] True
    have "depth < md \<and> int (length (results st')) < mp" by simp
    ultimately show ?thesis by blast
  next
    case False
    with assms Inr ps have "st' = ?st2"
      by (auto simp: try_block_def Let_def split: if_splits)
    then have "adds depth st [] st'" by (simp add: adds_def)
    then show ?thesis by blast
  qed
qed

lemma iteration_adds:
  "\<exists>new. adds depth st new (iteration W bd mp md cur depth st) \<and>
         (new \<noteq> [] \<longrightarrow>
            depth < md \<and> int (length (results (iteration W bd mp md cur depth st))) < mp)"
proof (cases "try_block W bd mp md cur depth st")
  case (Pair st' r)
  from try_block_adds [OF Pair] obtain new
    where a: "adds depth st new st'"
      and g: "new \<noteq> [] \<longrightarrow> depth < md \<and> int (length (results st')) < mp"
    by blast
  show ?thesis
  proof (cases r)
    case None
    with Pair have "iteration W bd mp md cur depth st = st'" by (simp add: iteration_def)
    with a g show ?thesis by auto
  next
    case (Some e)
    with Pair have i: "iteration W bd mp md cur depth st =
        st'\<lparr>console := console st' @ [error_line cur e]\<rparr>"
      by (simp add: iteration_def)
    from a have "adds depth st new (st'\<lparr>console := console st' @ [error_line cur e]\<rparr>)"
      by (simp add: adds_def)
    with g i show ?thesis by auto
  qed
qed

text \<open>A page that raises before its record is appended changes nothing but the console.\<close>

lemma iteration_failure:
  "fetch_and_extract W cur = Inl e \<Longrightarrow>
   iteration W bd mp md cur depth st =
     st\<lparr>console := console st @ [scraping_line st mp cur, error_line cur e]\<rparr>"
  by (simp add: iteration_def try_block_def)

lemma crawl_loop_failure:
  assumes "fetch_and_extract W cur = Inl e" and "queue st = (cur, depth) # rest"
    and "int (length (results st)) < mp"
  shows "crawl_loop W bd mp md st =
         crawl_loop W bd mp md
           (st\<lparr>queue := rest,
                console := console st @ [scraping_line st mp cur, error_line cur e]\<rparr>)"
proof -
  have "crawl_loop W bd mp md st =
        crawl_loop W bd mp md (iteration W bd mp md cur depth (st\<lparr>queue := rest\<rparr>))"
    using assms(2,3) by (subst crawl_loop.simps) simp
  also have "iteration W bd mp md cur depth (st\<lparr>queue := rest\<rparr>) =
        st\<lparr>queue := rest,
            console := console st @ [scraping_line st mp cur, error_line cur e]\<rparr>"
    using iteration_failure [OF assms(1)] by (simp add: scraping_line_def)
  finally show ?thesis .
qed

text \<open>The state in which the loop ends is one of the states at its head.\<close>

lemma crawl_loop_reach:
  "reach W bd mp md url st \<Longrightarrow> reach W bd mp md url (crawl_loop W bd mp md st)"
proof (induction W bd mp md st rule: crawl_loop.induct)
  case (1 W bd mp md st)
  show ?case
  proof (cases "queue st")
    case Nil
    with "1.prems" show ?thesis by (subst crawl_loop.simps) simp
  next
    case (Cons e rest)
    obtain cur depth where e: "e = (cur, depth)" by (cases e)
    show ?thesis
    proof (cases "int (length (results st)) < mp")
      case True
      from "1.prems" Cons e True
      have "reach W bd mp md url (iteration W bd mp md cur depth (st\<lparr>queue := rest\<rparr>))"
        by (auto intro: reach.pass)
      from "1.IH" [OF Cons e [symmetric] True this] Cons e True
      show ?thesis by (subst crawl_loop.simps) simp
    next
      case False
      with "1.prems" Cons e show ?thesis by (subst crawl_loop.simps) simp
    qed
  qed
qed

lemma crawl_reach: "reach W bd mp md url (crawl_loop W bd mp md (initial url))"
  by (rule crawl_loop_reach) (rule reach.start)

section \<open>The page budget\<close>

lemma iteration_results_le:
  "length (results (iteration W bd mp md cur depth st)) \<le> Suc (length (results st))"
  using iteration_progress [of W bd mp md cur depth st] by auto

lemma reach_results_bounded:
  "reach W bd mp md url st \<Longrightarrow> 0 \<le> mp \<Longrightarrow> int (length (results st)) \<le> mp"
proof (induction rule: reach.induct)
  case start
  then show ?case by (simp add: initial_def)
next
  case (pass st cur depth rest)
  from iteration_results_le [of W bd mp md cur depth "st\<lparr>queue := rest\<rparr>"] pass.hyps(3)
  show ?case by simp
qed

text \<open>
  C2: for a positive \<open>max_pages\<close>, no state at the head of the loop, and so neither the
  final state nor the list returned, holds more than \<open>max_pages\<close> records; and a pass
  after which the records number \<open>max_pages\<close> (or more) has added nothing to the queue.
  The witness is the run with \<open>max_pages = 1\<close> on the example site: one record, the home
  page, and none of its links enqueued.
\<close>

theorem results_bounded:
  "0 < max_pages \<Longrightarrow>
   (reach W bd max_pages md url st \<longrightarrow> int (length (results st)) \<le> max_pages) \<and>
   int (length (results (crawl_loop W bd max_pages md (initial url)))) \<le> max_pages \<and>
   (scrape_website W url max_pages md output_file = Inr out \<longrightarrow>
      int (length (returned out)) \<le> max_pages) \<and>
   (max_pages \<le> int (length (results (iteration W bd max_pages md cur depth t))) \<longrightarrow>
      queue (iteration W bd max_pages md cur depth t) = queue t \<and>
      enqueued (iteration W bd max_pages md cur depth t) = enqueued t \<and>
      visited (iteration W bd max_pages md cur depth t) = visited t)"
proof -
  assume pos: "0 < max_pages"
  then have nn: "0 \<le> max_pages" by simp
  have a: "reach W bd max_pages md url st \<longrightarrow> int (length (results st)) \<le> max_pages"
    using reach_results_bounded nn by blast
  have b: "int (length (results (crawl_loop W b' max_pages md (initial url)))) \<le> max_pages" for b'
    using reach_results_bounded [OF crawl_reach nn] .
  have c: "scrape_website W url max_pages md output_file = Inr out \<longrightarrow>
      int (length (returned out)) \<le> max_pages"
    using b by (auto simp: scrape_website_def Let_def split: sum.splits)
  have d: "max_pages \<le> int (length (results (iteration W bd max_pages md cur depth t))) \<longrightarrow>
      queue (iteration W bd max_pages md cur depth t) = queue t \<and>
      enqueued (iteration W bd max_pages md cur depth t) = enqueued t \<and>
      visited (iteration W bd max_pages md cur depth t) = visited t"
  proof
    assume full: "max_pages \<le> int (length (results (iteration W bd max_pages md cur depth t)))"
    from iteration_adds [of depth t W bd max_pages md cur] obtain new
      where ad: "adds depth t new (iteration W bd max_pages md cur depth t)"
        and g: "new \<noteq> [] \<longrightarrow> depth < md \<and>
                 int (length (results (iteration W bd max_pages md cur depth t))) < max_pages"
      by blast
    from g full have "new = []" by auto
    with ad show "queue (iteration W bd max_pages md cur depth t) = queue t \<and>
      enqueued (iteration W bd max_pages md cur depth t) = enqueued t \<and>
      visited (iteration W bd max_pages md cur depth t) = visited t"
      by (simp add: adds_def)
  qed
  from a b c d show ?thesis by blast
qed

theorem results_bounded_witness:
  "(0::int) < 1 \<and>
   reach example_web ''example.com'' 1 2 seed (initial seed) \<and>
   int (length (results (initial seed))) \<le> 1 \<and>
   scrape_website example_web seed 1 2 ''out.json'' =
     Inr \<lparr>returned = [home_record], written = (''out.json'', [home_record]),
          printed = [''Scraping page 1/1: http://example.com'', ''Scraped 1 pages'',
                     ''Results saved to out.json'']\<rparr> \<and>
   int (length [home_record]) \<le> 1 \<and>
   results (iteration example_web ''example.com'' 1 2 seed 0 ((initial seed)\<lparr>queue := []\<rparr>))
     = [home_record] \<and>
   queue (iteration example_web ''example.com'' 1 2 seed 0 ((initial seed)\<lparr>queue := []\<rparr>)) = []"
proof -
  have pos: "(0::int) < 1" by simp
  have r: "reach example_web ''example.com'' 1 2 seed (initial seed)" by (rule reach.start)
  have s: "scrape_website example_web seed 1 2 ''out.json'' =
     Inr \<lparr>returned = [home_record], written = (''out.json'', [home_record]),
          printed = [''Scraping page 1/1: http://example.com'', ''Scraped 1 pages'',
                     ''Results saved to out.json'']\<rparr>"
    by code_simp
  have i: "results (iteration example_web ''example.com'' 1 2 seed 0 ((initial seed)\<lparr>queue := []\<rparr>))
     = [home_record]"
    by code_simp
  from results_bounded [where max_pages = 1 and W = example_web and bd = "''example.com''"
      and md = 2 and url = seed and st = "initial seed" and output_file = "''out.json''"
      and cur = seed and depth = 0 and t = "(initial seed)\<lparr>queue := []\<rparr>", OF pos] r s i
  show ?thesis by simp
qed

section \<open>The depth bound\<close>

lemma reach_depth_bounded:
  "reach W bd mp md url st \<Longrightarrow>
   (\<forall>e \<in> set (enqueued st). e = (url, 0) \<or> 0 < snd e \<and> snd e \<le> md) \<and>
   set (queue st) \<subseteq> set (enqueued st)"
proof (induction rule: reach.induct)
  case start
  then show ?case by (simp add: initial_def)
next
  case (pass st cur depth rest)
  let ?st' = "iteration W bd mp md cur depth (st\<lparr>queue := rest\<rparr>)"
  from pass.IH
  have old: "\<forall>e \<in> set (enqueued st). e = (url, 0) \<or> 0 < snd e \<and> snd e \<le> md"
    and sub: "set (queue st) \<subseteq> set (enqueued st)"
    by blast+
  from sub pass.hyps(2) have "(cur, depth) \<in> set (enqueued st)" by auto
  with old have depth: "0 \<le> depth" by auto
  from iteration_adds [of depth "st\<lparr>queue := rest\<rparr>" W bd mp md cur] obtain new
    where ad: "adds depth (st\<lparr>queue := rest\<rparr>) new ?st'"
      and g: "new \<noteq> [] \<longrightarrow> depth < md \<and> int (length (results ?st')) < mp"
    by blast
  from ad have e: "enqueued ?st' = enqueued st @ new" and q: "queue ?st' = rest @ new"
    and sn: "snd ` set new \<subseteq> {depth + 1}"
    by (simp_all add: adds_def)
  have "\<forall>e \<in> set new. 0 < snd e \<and> snd e \<le> md"
  proof
    fix x assume x: "x \<in> set new"
    with sn have "snd x = depth + 1" by auto
    moreover from x g have "depth < md" by auto
    ultimately show "0 < snd x \<and> snd x \<le> md" using depth by simp
  qed
  with old e have "\<forall>e \<in> set (enqueued ?st'). e = (url, 0) \<or> 0 < snd e \<and> snd e \<le> md"
    by auto
  moreover from sub pass.hyps(2) e q have "set (queue ?st') \<subseteq> set (enqueued ?st')" by auto
  ultimately show ?case by blast
qed

text \<open>
  C3: every entry ever enqueued, in any state at the head of the loop, is the seed at
  depth 0 or has a depth from 1 to \<open>max_depth\<close>; so with \<open>max_depth\<close> not negative, as
  the interface has it, every depth is from 0 to \<open>max_depth\<close>, and the queue holds only
  such entries. The seed is enqueued at depth 0; a pass for an entry of depth \<open>depth\<close>
  enqueues only entries of depth \<open>depth + 1\<close>, and only when \<open>depth < max_depth\<close>, so none
  at \<open>depth = max_depth\<close>.
\<close>

theorem depth_bounded:
  "(reach W bd mp max_depth url st \<longrightarrow>
      (\<forall>e \<in> set (enqueued st). e = (url, 0) \<or> 0 < snd e \<and> snd e \<le> max_depth) \<and>
      set (queue st) \<subseteq> set (enqueued st)) \<and>
   (0 \<le> max_depth \<and> reach W bd mp max_depth url st \<longrightarrow>
      (\<forall>e \<in> set (enqueued st). 0 \<le> snd e \<and> snd e \<le> max_depth)) \<and>
   enqueued (initial url) = [(url, 0)] \<and> queue (initial url) = [(url, 0)] \<and>
   (\<exists>new. enqueued (iteration W bd mp max_depth cur depth t) = enqueued t @ new \<and>
          queue (iteration W bd mp max_depth cur depth t) = queue t @ new \<and>
          (\<forall>e \<in> set new. snd e = depth + 1) \<and>
          (new \<noteq> [] \<longrightarrow> depth < max_depth)) \<and>
   (max_depth \<le> depth \<longrightarrow>
      enqueued (iteration W bd mp max_depth cur depth t) = enqueued t \<and>
      queue (iteration W bd mp max_depth cur depth t) = queue t)"
proof -
  have a: "reach W bd mp max_depth url st \<longrightarrow>
      (\<forall>e \<in> set (enqueued st). e = (url, 0) \<or> 0 < snd e \<and> snd e \<le> max_depth) \<and>
      set (queue st) \<subseteq> set (enqueued st)"
    using reach_depth_bounded by blast
  have a': "0 \<le> max_depth \<and> reach W bd mp max_depth url st \<longrightarrow>
      (\<forall>e \<in> set (enqueued st). 0 \<le> snd e \<and> snd e \<le> max_depth)"
  proof
    assume h: "0 \<le> max_depth \<and> reach W bd mp max_depth url st"
    with a have all: "\<forall>e \<in> set (enqueued st). e = (url, 0) \<or> 0 < snd e \<and> snd e \<le> max_depth"
      by blast
    show "\<forall>e \<in> set (enqueued st). 0 \<le> snd e \<and> snd e \<le> max_depth"
    proof
      fix e assume "e \<in> set (enqueued st)"
      with all have "e = (url, 0) \<or> 0 < snd e \<and> snd e \<le> max_depth" by blast
      with h show "0 \<le> snd e \<and> snd e \<le> max_depth" by auto
    qed
  qed
  have b: "enqueued (initial url) = [(url, 0)] \<and> queue (initial url) = [(url, 0)]"
    by (simp add: initial_def)
  from iteration_adds [of depth t W bd mp max_depth cur] obtain new
    where ad: "adds depth t new (iteration W bd mp max_depth cur depth t)"
      and g: "new \<noteq> [] \<longrightarrow> depth < max_depth"
    by blast
  from ad have n: "enqueued (iteration W bd mp max_depth cur depth t) = enqueued t @ new"
    "queue (iteration W bd mp max_depth cur depth t) = queue t @ new"
    "\<forall>e \<in> set new. snd e = depth + 1"
    by (auto simp: adds_def)
  with g have c: "\<exists>new. enqueued (iteration W bd mp max_depth cur depth t) = enqueued t @ new \<and>
          queue (iteration W bd mp max_depth cur depth t) = queue t @ new \<and>
          (\<forall>e \<in> set new. snd e = depth + 1) \<and>
          (new \<noteq> [] \<longrightarrow> depth < max_depth)"
    by blast
  from g n have d: "max_depth \<le> depth \<longrightarrow>
      enqueued (iteration W bd mp max_depth cur depth t) = enqueued t \<and>
      queue (iteration W bd mp max_depth cur depth t) = queue t"
    by auto
  from a a' b c d show ?thesis by blast
qed

text \<open>
  The witness: the crawl of the example site with \<open>max_depth = 1\<close>. The seed is at depth
  0, the three links taken from the home page at depth 1, and the home page, had it been
  met at depth 1, would have enqueued nothing.
\<close>

theorem depth_bounded_witness:
  "(0::int) \<le> 1 \<and>
   reach example_web ''example.com'' 20 1 seed
     (crawl_loop example_web ''example.com'' 20 1 (initial seed)) \<and>
   enqueued (crawl_loop example_web ''example.com'' 20 1 (initial seed)) =
     [(''http://example.com'', 0), (''http://example.com/a'', 1),
      (''http://example.com/b'', 1), (''http://example.com/DOC.PDF'', 1)] \<and>
   (1::int) \<le> 1 \<and>
   enqueued (iteration example_web ''example.com'' 20 1 seed 1 ((initial seed)\<lparr>queue := []\<rparr>))
     = [(seed, 0)]"
proof -
  have e: "enqueued (crawl_loop example_web ''example.com'' 20 1 (initial seed)) =
     [(''http://example.com'', 0), (''http://example.com/a'', 1),
      (''http://example.com/b'', 1), (''http://example.com/DOC.PDF'', 1)]"
    by code_simp
  have i: "enqueued ((initial seed)\<lparr>queue := []\<rparr>) = [(seed, 0)]"
    by (simp add: initial_def)
  from depth_bounded [where max_depth = 1 and W = example_web and bd = "''example.com''"
      and mp = 20 and url = seed and st = "crawl_loop example_web ''example.com'' 20 1 (initial seed)"
      and cur = seed and depth = 1 and t = "(initial seed)\<lparr>queue := []\<rparr>"]
    crawl_reach [of example_web "''example.com''" 20 1 seed] e i
  show ?thesis by simp
qed

section \<open>The visited set\<close>

lemma reach_visited:
  "reach W bd mp md url st \<Longrightarrow>
   visited st = fst ` set (enqueued st) \<and> distinct (map fst (enqueued st)) \<and>
   suffix (queue st) (enqueued st)"
proof (induction rule: reach.induct)
  case start
  then show ?case by (simp add: initial_def)
next
  case (pass st cur depth rest)
  let ?st' = "iteration W bd mp md cur depth (st\<lparr>queue := rest\<rparr>)"
  from pass.IH have v: "visited st = fst ` set (enqueued st)"
    and d: "distinct (map fst (enqueued st))" and s: "suffix (queue st) (enqueued st)"
    by blast+
  from iteration_adds [of depth "st\<lparr>queue := rest\<rparr>" W bd mp md cur] obtain new
    where ad: "adds depth (st\<lparr>queue := rest\<rparr>) new ?st'"
    by blast
  then have e: "enqueued ?st' = enqueued st @ new" and q: "queue ?st' = rest @ new"
    and v': "visited ?st' = visited st \<union> fst ` set new"
    and dn: "distinct (map fst new)" and fresh: "fst ` set new \<inter> visited st = {}"
    by (simp_all add: adds_def)
  from v v' e have "visited ?st' = fst ` set (enqueued ?st')" by auto
  moreover from d dn fresh v e have "distinct (map fst (enqueued ?st'))" by auto
  moreover have "suffix (queue ?st') (enqueued ?st')"
  proof -
    from s pass.hyps(2) have "suffix rest (enqueued st)"
      by (metis suffix_ConsD)
    then show ?thesis unfolding e q by simp
  qed
  ultimately show ?case by blast
qed

text \<open>
  C4: in every state at the head of the loop the visited set is exactly the set of the
  URLs ever enqueued, whether processed by then or still waiting in the queue (a suffix
  of the history), and no URL was enqueued twice. Step by step: a link either changes
  nothing, or its URL was not in the visited set and enters the set and the queue
  together.
\<close>

theorem visited_dedup:
  "(reach W bd mp md url st \<longrightarrow>
      visited st = fst ` set (enqueued st) \<and> distinct (map fst (enqueued st)) \<and>
      suffix (queue st) (enqueued st)) \<and>
   (visit_link W bd cur depth href t = Inr t' \<longrightarrow>
      t' = t \<or>
      (\<exists>u. u \<notin> visited t \<and>
           t' = t\<lparr>visited := insert u (visited t),
                  queue := queue t @ [(u, depth + 1)],
                  enqueued := enqueued t @ [(u, depth + 1)]\<rparr>))"
proof (rule conjI; rule impI)
  assume "reach W bd mp md url st"
  then show "visited st = fst ` set (enqueued st) \<and> distinct (map fst (enqueued st)) \<and>
      suffix (queue st) (enqueued st)"
    by (rule reach_visited)
next
  assume "visit_link W bd cur depth href t = Inr t'"
  then show "t' = t \<or>
      (\<exists>u. u \<notin> visited t \<and>
           t' = t\<lparr>visited := insert u (visited t),
                  queue := queue t @ [(u, depth + 1)],
                  enqueued := enqueued t @ [(u, depth + 1)]\<rparr>)"
    by (rule visit_link_cases)
qed

text \<open>
  The witness: the crawl of the example site, whose home page links to \<open>/a\<close> twice, and
  the second of these links met in the state the first one left.
\<close>

theorem visited_dedup_witness:
  "reach example_web ''example.com'' 20 2 seed
     (crawl_loop example_web ''example.com'' 20 2 (initial seed)) \<and>
   enqueued (crawl_loop example_web ''example.com'' 20 2 (initial seed)) =
     [(''http://example.com'', 0), (''http://example.com/a'', 1),
      (''http://example.com/b'', 1), (''http://example.com/DOC.PDF'', 1)] \<and>
   visited (crawl_loop example_web ''example.com'' 20 2 (initial seed)) =
     {''http://example.com'', ''http://example.com/a'', ''http://example.com/b'',
      ''http://example.com/DOC.PDF''} \<and>
   visit_link example_web ''example.com'' seed 0 ''http://example.com/a'' after_first_link
     = Inr after_first_link \<and>
   visit_link example_web ''example.com'' seed 0 ''http://example.com/b'' after_first_link
     = Inr (after_first_link
             \<lparr>visited := insert ''http://example.com/b'' (visited after_first_link),
              queue := queue after_first_link @ [(''http://example.com/b'', 0 + 1)],
              enqueued := enqueued after_first_link @ [(''http://example.com/b'', 0 + 1)]\<rparr>)"
proof -
  let ?st = "crawl_loop example_web ''example.com'' 20 2 (initial seed)"
  have e: "enqueued ?st =
     [(''http://example.com'', 0), (''http://example.com/a'', 1),
      (''http://example.com/b'', 1), (''http://example.com/DOC.PDF'', 1)]"
    by code_simp
  have a: "visit_link example_web ''example.com'' seed 0 ''http://example.com/a'' after_first_link
     = Inr after_first_link"
    by code_simp
  have b: "visit_link example_web ''example.com'' seed 0 ''http://example.com/b'' after_first_link
     = Inr (after_first_link
             \<lparr>visited := insert ''http://example.com/b'' (visited after_first_link),
              queue := queue after_first_link @ [(''http://example.com/b'', 0 + 1)],
              enqueued := enqueued after_first_link @ [(''http://example.com/b'', 0 + 1)]\<rparr>)"
    by code_simp
  from visited_dedup [where W = example_web and bd = "''example.com''" and mp = 20 and md = 2
      and url = seed and st = ?st and cur = seed and depth = 0
      and href = "''http://example.com/a''" and t = after_first_link and t' = after_first_link]
    crawl_reach [of example_web "''example.com''" 20 2 seed]
  have v: "visited ?st = fst ` set (enqueued ?st)" by blast
  have "visited ?st = {''http://example.com'', ''http://example.com/a'', ''http://example.com/b'',
      ''http://example.com/DOC.PDF''}"
    unfolding v e by simp
  with crawl_reach [of example_web "''example.com''" 20 2 seed] e a b
  show ?thesis by simp
qed

section \<open>The link filter\<close>

lemma link_filter_accepts:
  assumes "link_filter W bd seen cur href = Inr (Some u)"
  shows "\<exists>next_url p. urljoin W cur href = Inr next_url \<and> urlparse W next_url = Inr p \<and>
           (startswith next_url ''http://'' \<or> startswith next_url ''https://'') \<and>
           u = scheme p @ ''://'' @ netloc p @ path p \<and>
           u \<notin> seen \<and> netloc p = bd \<and> \<not> list_ex (endswith u) denied_extensions"
proof (cases "urljoin W cur href")
  case (Inl e)
  with assms show ?thesis by (simp add: link_filter_def)
next
  case (Inr next_url)
  note j = this
  show ?thesis
  proof (cases "startswith next_url ''http://'' \<or> startswith next_url ''https://''")
    case False
    with assms j show ?thesis by (simp add: link_filter_def)
  next
    case True
    note h = this
    show ?thesis
    proof (cases "urlparse W next_url")
      case (Inl e)
      with assms j h show ?thesis by (auto simp: link_filter_def)
    next
      case (Inr p)
      with assms j h
      have "u = scheme p @ ''://'' @ netloc p @ path p \<and>
           u \<notin> seen \<and> netloc p = bd \<and> \<not> list_ex (endswith u) denied_extensions"
        by (auto simp: link_filter_def Let_def split: if_splits)
      with j h Inr show ?thesis by blast
    qed
  qed
qed

lemma link_filter_rejects:
  assumes "urljoin W cur href = Inr next_url" and "urlparse W next_url = Inr p"
    and "netloc p \<noteq> bd \<or> list_ex (endswith (scheme p @ ''://'' @ netloc p @ path p)) denied_extensions"
  shows "link_filter W bd seen cur href = Inr None"
  using assms by (auto simp: link_filter_def Let_def)

lemma link_filter_passes:
  assumes "urljoin W cur href = Inr next_url" and "urlparse W next_url = Inr p"
    and "startswith next_url ''http://'' \<or> startswith next_url ''https://''"
    and "scheme p @ ''://'' @ netloc p @ path p \<notin> seen" and "netloc p = bd"
    and "\<not> list_ex (endswith (scheme p @ ''://'' @ netloc p @ path p)) denied_extensions"
  shows "link_filter W bd seen cur href = Inr (Some (scheme p @ ''://'' @ netloc p @ path p))"
  using assms by (auto simp: link_filter_def Let_def)

text \<open>
  C5: a link is accepted only if the network location of the resolved URL is the very
  string \<open>base_domain\<close>; any other string is rejected, a subdomain such as
  \<open>blog.example.com\<close> and another spelling such as \<open>Example.com\<close> included.
\<close>

theorem link_filter_same_domain:
  "(link_filter W bd seen cur href = Inr (Some u) \<longrightarrow>
      (\<exists>next_url p. urljoin W cur href = Inr next_url \<and> urlparse W next_url = Inr p \<and>
                     netloc p = bd)) \<and>
   (urljoin W cur href = Inr next_url \<and> urlparse W next_url = Inr p \<and> netloc p \<noteq> bd \<longrightarrow>
      link_filter W bd seen cur href = Inr None) \<and>
   (urljoin W cur href = Inr ''http://blog.example.com/x'' \<and>
    urlparse W ''http://blog.example.com/x'' = Inr p \<and> netloc p = ''blog.example.com'' \<longrightarrow>
      link_filter W ''example.com'' seen cur href = Inr None) \<and>
   (urljoin W cur href = Inr next_url \<and> urlparse W next_url = Inr p \<and>
    netloc p = ''Example.com'' \<longrightarrow>
      link_filter W ''example.com'' seen cur href = Inr None)"
proof -
  have a: "link_filter W bd seen cur href = Inr (Some u) \<longrightarrow>
      (\<exists>next_url p. urljoin W cur href = Inr next_url \<and> urlparse W next_url = Inr p \<and>
                     netloc p = bd)"
    using link_filter_accepts [of W bd seen cur href u] by blast
  have b: "urljoin W cur href = Inr n \<and> urlparse W n = Inr p \<and> netloc p \<noteq> b' \<longrightarrow>
      link_filter W b' seen cur href = Inr None" for n b'
    using link_filter_rejects [of W cur href n p b' seen] by blast
  have c: "''blog.example.com'' \<noteq> ''example.com''" "''Example.com'' \<noteq> ''example.com''"
    by simp_all
  from a b [of next_url bd] b [of "''http://blog.example.com/x''" "''example.com''"]
    b [of next_url "''example.com''"] c
  show ?thesis by metis
qed

text \<open>
  The witness: on the example site, with \<open>example.com\<close> as the base domain, the link to
  \<open>/a\<close> is accepted and the link to \<open>http://blog.example.com/x\<close> is not.
\<close>

theorem link_filter_same_domain_witness:
  "link_filter example_web ''example.com'' {seed} seed ''http://example.com/a''
     = Inr (Some ''http://example.com/a'') \<and>
   urljoin example_web seed ''http://example.com/a'' = Inr ''http://example.com/a'' \<and>
   urljoin example_web seed ''http://blog.example.com/x'' = Inr ''http://blog.example.com/x'' \<and>
   urlparse example_web ''http://blog.example.com/x'' =
     Inr \<lparr>scheme = ''http'', netloc = ''blog.example.com'', path = ''/x''\<rparr> \<and>
   ''blog.example.com'' \<noteq> ''example.com'' \<and>
   link_filter example_web ''example.com'' {seed} seed ''http://blog.example.com/x'' = Inr None"
proof -
  have a: "link_filter example_web ''example.com'' {seed} seed ''http://example.com/a''
     = Inr (Some ''http://example.com/a'')"
    by code_simp
  have j: "urljoin example_web seed ''http://example.com/a'' = Inr ''http://example.com/a''"
    "urljoin example_web seed ''http://blog.example.com/x'' = Inr ''http://blog.example.com/x''"
    by (simp_all add: example_web_def)
  have p: "urlparse example_web ''http://blog.example.com/x'' =
     Inr \<lparr>scheme = ''http'', netloc = ''blog.example.com'', path = ''/x''\<rparr>"
    by (simp add: example_web_def example_urlparse_def)
  from link_filter_same_domain [where W = example_web and bd = "''example.com''"
      and seen = "{seed}" and cur = seed and href = "''http://blog.example.com/x''"
      and next_url = "''http://blog.example.com/x''"
      and p = "\<lparr>scheme = ''http'', netloc = ''blog.example.com'', path = ''/x''\<rparr>"]
    a j p
  show ?thesis by simp
qed

section \<open>The extension denylist\<close>

lemma denied_iff:
  "list_ex (endswith u) denied_extensions \<longleftrightarrow>
     endswith u ''.pdf'' \<or> endswith u ''.jpg'' \<or> endswith u ''.png'' \<or> endswith u ''.gif''"
  by (simp add: denied_extensions_def)

lemma endswith_same_length:
  "endswith u p \<Longrightarrow> endswith u q \<Longrightarrow> length p = length q \<Longrightarrow> p = q"
  by (simp add: endswith_def)

lemma upper_pdf_not_denied:
  assumes "endswith u ''.PDF''"
  shows "\<not> list_ex (endswith u) denied_extensions"
proof
  assume "list_ex (endswith u) denied_extensions"
  then consider "endswith u ''.pdf''" | "endswith u ''.jpg''" | "endswith u ''.png''"
    | "endswith u ''.gif''"
    using denied_iff by blast
  then show False
  proof cases
    case 1
    from endswith_same_length [OF assms 1] show False by simp
  next
    case 2
    from endswith_same_length [OF assms 2] show False by simp
  next
    case 3
    from endswith_same_length [OF assms 3] show False by simp
  next
    case 4
    from endswith_same_length [OF assms 4] show False by simp
  qed
qed

text \<open>
  C6: the check rejects exactly the clean URLs that end, character for character, in
  \<open>.pdf\<close>, \<open>.jpg\<close>, \<open>.png\<close> or \<open>.gif\<close>; a clean URL that ends in \<open>.PDF\<close> is not rejected
  by it, and is accepted when it passes the other checks.
\<close>

theorem extension_denylist:
  "urljoin W cur href = Inr next_url \<Longrightarrow> urlparse W next_url = Inr p \<Longrightarrow>
   clean_url = scheme p @ ''://'' @ netloc p @ path p \<Longrightarrow>
   (endswith clean_url ''.pdf'' \<or> endswith clean_url ''.jpg'' \<or>
    endswith clean_url ''.png'' \<or> endswith clean_url ''.gif'' \<longrightarrow>
      link_filter W bd seen cur href = Inr None) \<and>
   (list_ex (endswith clean_url) denied_extensions \<longleftrightarrow>
      endswith clean_url ''.pdf'' \<or> endswith clean_url ''.jpg'' \<or>
      endswith clean_url ''.png'' \<or> endswith clean_url ''.gif'') \<and>
   (endswith clean_url ''.PDF'' \<longrightarrow> \<not> list_ex (endswith clean_url) denied_extensions) \<and>
   (endswith clean_url ''.PDF'' \<and>
    (startswith next_url ''http://'' \<or> startswith next_url ''https://'') \<and>
    clean_url \<notin> seen \<and> netloc p = bd \<longrightarrow>
      link_filter W bd seen cur href = Inr (Some clean_url))"
proof -
  assume j: "urljoin W cur href = Inr next_url" and p: "urlparse W next_url = Inr p"
    and c: "clean_url = scheme p @ ''://'' @ netloc p @ path p"
  have a: "endswith clean_url ''.pdf'' \<or> endswith clean_url ''.jpg'' \<or>
    endswith clean_url ''.png'' \<or> endswith clean_url ''.gif'' \<longrightarrow>
      link_filter W bd seen cur href = Inr None"
    using link_filter_rejects [OF j p, of bd seen] denied_iff [of clean_url] c by blast
  have b: "endswith clean_url ''.PDF'' \<longrightarrow> \<not> list_ex (endswith clean_url) denied_extensions"
    using upper_pdf_not_denied by blast
  have d: "endswith clean_url ''.PDF'' \<and>
    (startswith next_url ''http://'' \<or> startswith next_url ''https://'') \<and>
    clean_url \<notin> seen \<and> netloc p = bd \<longrightarrow>
      link_filter W bd seen cur href = Inr (Some clean_url)"
    using link_filter_passes [OF j p, of seen bd] b c by blast
  from a b d denied_iff [of clean_url] show ?thesis by blast
qed

text \<open>
  The witness: on the example site the link to \<open>/doc.pdf\<close> is rejected and the link to
  \<open>/DOC.PDF\<close> is accepted.
\<close>

theorem extension_denylist_witness:
  "urljoin example_web seed ''http://example.com/doc.pdf'' = Inr ''http://example.com/doc.pdf'' \<and>
   urlparse example_web ''http://example.com/doc.pdf'' =
     Inr \<lparr>scheme = ''http'', netloc = ''example.com'', path = ''/doc.pdf''\<rparr> \<and>
   endswith ''http://example.com/doc.pdf'' ''.pdf'' \<and>
   link_filter example_web ''example.com'' {seed} seed ''http://example.com/doc.pdf'' = Inr None \<and>
   urljoin example_web seed ''http://example.com/DOC.PDF'' = Inr ''http://example.com/DOC.PDF'' \<and>
   urlparse example_web ''http://example.com/DOC.PDF'' =
     Inr \<lparr>scheme = ''http'', netloc = ''example.com'', path = ''/DOC.PDF''\<rparr> \<and>
   endswith ''http://example.com/DOC.PDF'' ''.PDF'' \<and>
   startswith ''http://example.com/DOC.PDF'' ''http://'' \<and>
   ''http://example.com/DOC.PDF'' \<notin> {seed} \<and>
   link_filter example_web ''example.com'' {seed} seed ''http://example.com/DOC.PDF''
     = Inr (Some ''http://example.com/DOC.PDF'')"
proof -
  let ?lo = "\<lparr>scheme = ''http'', netloc = ''example.com'', path = ''/doc.pdf''\<rparr>"
  let ?up = "\<lparr>scheme = ''http'', netloc = ''example.com'', path = ''/DOC.PDF''\<rparr>"
  have j: "urljoin example_web seed ''http://example.com/doc.pdf'' = Inr ''http://example.com/doc.pdf''"
    "urljoin example_web seed ''http://example.com/DOC.PDF'' = Inr ''http://example.com/DOC.PDF''"
    by (simp_all add: example_web_def)
  have p: "urlparse example_web ''http://example.com/doc.pdf'' = Inr ?lo"
    "urlparse example_web ''http://example.com/DOC.PDF'' = Inr ?up"
    by (simp_all add: example_web_def example_urlparse_def)
  have c: "''http://example.com/doc.pdf'' = scheme ?lo @ ''://'' @ netloc ?lo @ path ?lo"
    "''http://example.com/DOC.PDF'' = scheme ?up @ ''://'' @ netloc ?up @ path ?up"
    by simp_all
  have e: "endswith ''http://example.com/doc.pdf'' ''.pdf''"
    "endswith ''http://example.com/DOC.PDF'' ''.PDF''"
    "startswith ''http://example.com/DOC.PDF'' ''http://''"
    "''http://example.com/DOC.PDF'' \<notin> {seed}"
    by (simp_all add: endswith_def startswith_def seed_def)
  from extension_denylist [OF j(1) p(1) c(1), of "''example.com''" "{seed}"]
    extension_denylist [OF j(2) p(2) c(2), of "''example.com''" "{seed}"] j p e
  show ?thesis by simp
qed

section \<open>Failures of single pages\<close>

lemma fetch_and_extract_raises:
  "(http_get W u = Inl e \<longrightarrow> fetch_and_extract W u = Inl e) \<and>
   (http_get W u = Inr d \<and> extract_title d = Inl e \<longrightarrow> fetch_and_extract W u = Inl e) \<and>
   (http_get W u = Inr d \<and> extract_title d = Inr t \<and> extract_content d = Inl e \<longrightarrow>
      fetch_and_extract W u = Inl e)"
  by (simp add: fetch_and_extract_def)

lemma scrape_website_returns:
  "urlparse W url = Inr p \<Longrightarrow>
   \<exists>out. scrape_website W url mp md output_file = Inr out \<and>
         returned out = results (crawl_loop W (netloc p) mp md (initial url)) \<and>
         written out = (output_file, results (crawl_loop W (netloc p) mp md (initial url)))"
  by (simp add: scrape_website_def Let_def)

lemma scrape_website_raises:
  "scrape_website W url mp md output_file = Inl e \<Longrightarrow> urlparse W url = Inl e"
  by (simp add: scrape_website_def Let_def split: sum.splits)

text \<open>
  C9: an exception raised by the request, by the parse (both in \<open>http_get\<close>) or by the
  extraction of a page ends that page's pass with the state as it was, but for the two
  lines printed, the second of which names the URL and the exception: no record, nothing
  enqueued, the entry gone from the queue. The loop goes on with the rest of the queue.
  The loop itself raises nothing: \<open>scrape_website\<close> fails only if the parse of the seed
  URL, before the loop, does, and otherwise writes and returns the records gathered.
\<close>

theorem page_failure_isolated:
  "(http_get W u = Inl x \<longrightarrow> fetch_and_extract W u = Inl x) \<and>
   (http_get W u = Inr d \<and> extract_title d = Inl x \<longrightarrow> fetch_and_extract W u = Inl x) \<and>
   (http_get W u = Inr d \<and> extract_title d = Inr t \<and> extract_content d = Inl x \<longrightarrow>
      fetch_and_extract W u = Inl x) \<and>
   (fetch_and_extract W cur = Inl e \<longrightarrow>
      iteration W bd mp md cur depth st =
        st\<lparr>console := console st @ [scraping_line st mp cur, error_line cur e]\<rparr> \<and>
      error_line cur e = ''Error processing '' @ cur @ '': '' @ str_exn e \<and>
      (queue st = (cur, depth) # rest \<and> int (length (results st)) < mp \<longrightarrow>
         crawl_loop W bd mp md st =
         crawl_loop W bd mp md
           (st\<lparr>queue := rest,
                console := console st @ [scraping_line st mp cur, error_line cur e]\<rparr>))) \<and>
   (urlparse W url = Inr p \<longrightarrow>
      (\<exists>out. scrape_website W url mp md output_file = Inr out \<and>
             returned out = results (crawl_loop W (netloc p) mp md (initial url)) \<and>
             written out = (output_file, results (crawl_loop W (netloc p) mp md (initial url))))) \<and>
   (scrape_website W url mp md output_file = Inl x \<longrightarrow> urlparse W url = Inl x)"
proof -
  have a: "fetch_and_extract W cur = Inl e \<longrightarrow>
      iteration W bd mp md cur depth st =
        st\<lparr>console := console st @ [scraping_line st mp cur, error_line cur e]\<rparr> \<and>
      error_line cur e = ''Error processing '' @ cur @ '': '' @ str_exn e \<and>
      (queue st = (cur, depth) # rest \<and> int (length (results st)) < mp \<longrightarrow>
         crawl_loop W bd mp md st =
         crawl_loop W bd mp md
           (st\<lparr>queue := rest,
                console := console st @ [scraping_line st mp cur, error_line cur e]\<rparr>))"
  proof
    assume f: "fetch_and_extract W cur = Inl e"
    show "iteration W bd mp md cur depth st =
        st\<lparr>console := console st @ [scraping_line st mp cur, error_line cur e]\<rparr> \<and>
      error_line cur e = ''Error processing '' @ cur @ '': '' @ str_exn e \<and>
      (queue st = (cur, depth) # rest \<and> int (length (results st)) < mp \<longrightarrow>
         crawl_loop W bd mp md st =
         crawl_loop W bd mp md
           (st\<lparr>queue := rest,
                console := console st @ [scraping_line st mp cur, error_line cur e]\<rparr>))"
      using iteration_failure [OF f] crawl_loop_failure [OF f]
      by (simp add: error_line_def)
  qed
  have b: "urlparse W url = Inr p \<longrightarrow>
      (\<exists>out. scrape_website W url mp md output_file = Inr out \<and>
             returned out = results (crawl_loop W (netloc p) mp md (initial url)) \<and>
             written out = (output_file, results (crawl_loop W (netloc p) mp md (initial url))))"
    using scrape_website_returns by blast
  have c: "scrape_website W url mp md output_file = Inl x \<longrightarrow> urlparse W url = Inl x"
    using scrape_website_raises by blast
  from fetch_and_extract_raises [of W u x d t] a b c show ?thesis by simp
qed

text \<open>
  The witness: the crawl of the example site. After the home page the queue holds
  \<open>/a\<close>, \<open>/b\<close> and \<open>/DOC.PDF\<close>; the request for \<open>/a\<close> times out, \<open>/b\<close> fails in
  \<open>extract_content\<close>, and \<open>/DOC.PDF\<close> is still scraped, written and returned. A crawl
  seeded at \<open>/a\<close> gathers nothing and still writes its empty list.
\<close>

theorem page_failure_isolated_witness:
  "http_get example_web ''http://example.com/a'' = Inl (Raised ''Read timed out.'') \<and>
   fetch_and_extract example_web ''http://example.com/a'' = Inl (Raised ''Read timed out.'') \<and>
   iteration example_web ''example.com'' 20 2 seed 0 ((initial seed)\<lparr>queue := []\<rparr>) = after_home \<and>
   iteration example_web ''example.com'' 20 2 ''http://example.com/a'' 1
       (after_home\<lparr>queue := [(''http://example.com/b'', 1), (''http://example.com/DOC.PDF'', 1)]\<rparr>) =
     after_home
       \<lparr>queue := [(''http://example.com/b'', 1), (''http://example.com/DOC.PDF'', 1)],
        console := [''Scraping page 1/20: http://example.com'',
                    ''Scraping page 2/20: http://example.com/a'',
                    ''Error processing http://example.com/a: Read timed out.'']\<rparr> \<and>
   urlparse example_web seed = Inr \<lparr>scheme = ''http'', netloc = ''example.com'', path = []\<rparr> \<and>
   scrape_website example_web seed 20 2 ''out.json'' =
     Inr \<lparr>returned = [home_record, scan_record],
          written = (''out.json'', [home_record, scan_record]),
          printed = [''Scraping page 1/20: http://example.com'',
                     ''Scraping page 2/20: http://example.com/a'',
                     ''Error processing http://example.com/a: Read timed out.'',
                     ''Scraping page 2/20: http://example.com/b'',
                     error_line ''http://example.com/b'' none_find_all,
                     ''Scraping page 2/20: http://example.com/DOC.PDF'',
                     ''Scraped 2 pages'', ''Results saved to out.json'']\<rparr> \<and>
   scrape_website example_web ''http://example.com/a'' 20 2 ''out.json'' =
     Inr \<lparr>returned = [], written = (''out.json'', []),
          printed = [''Scraping page 1/20: http://example.com/a'',
                     ''Error processing http://example.com/a: Read timed out.'',
                     ''Scraped 0 pages'', ''Results saved to out.json'']\<rparr>"
proof -
  let ?rest = "[(''http://example.com/b'', 1), (''http://example.com/DOC.PDF'', 1)]"
  have g: "http_get example_web ''http://example.com/a'' = Inl (Raised ''Read timed out.'')"
    by (simp add: example_web_def example_get_def)
  have h: "iteration example_web ''example.com'' 20 2 seed 0 ((initial seed)\<lparr>queue := []\<rparr>) = after_home"
    by code_simp
  have l: "scraping_line (after_home\<lparr>queue := ?rest\<rparr>) 20 ''http://example.com/a'' =
      ''Scraping page 2/20: http://example.com/a''"
    "error_line ''http://example.com/a'' (Raised ''Read timed out.'') =
      ''Error processing http://example.com/a: Read timed out.''"
    "console after_home = [''Scraping page 1/20: http://example.com'']"
    by code_simp+
  have p: "urlparse example_web seed = Inr \<lparr>scheme = ''http'', netloc = ''example.com'', path = []\<rparr>"
    by (simp add: example_web_def example_urlparse_def seed_def)
  have s: "scrape_website example_web seed 20 2 ''out.json'' =
     Inr \<lparr>returned = [home_record, scan_record],
          written = (''out.json'', [home_record, scan_record]),
          printed = [''Scraping page 1/20: http://example.com'',
                     ''Scraping page 2/20: http://example.com/a'',
                     ''Error processing http://example.com/a: Read timed out.'',
                     ''Scraping page 2/20: http://example.com/b'',
                     error_line ''http://example.com/b'' none_find_all,
                     ''Scraping page 2/20: http://example.com/DOC.PDF'',
                     ''Scraped 2 pages'', ''Results saved to out.json'']\<rparr>"
    by code_simp
  have z: "scrape_website example_web ''http://example.com/a'' 20 2 ''out.json'' =
     Inr \<lparr>returned = [], written = (''out.json'', []),
          printed = [''Scraping page 1/20: http://example.com/a'',
                     ''Error processing http://example.com/a: Read timed out.'',
                     ''Scraped 0 pages'', ''Results saved to out.json'']\<rparr>"
    by code_simp
  from page_failure_isolated [where W = example_web and u = "''http://example.com/a''"
      and x = "Raised ''Read timed out.''" and cur = "''http://example.com/a''"
      and e = "Raised ''Read timed out.''" and bd = "''example.com''" and mp = 20 and md = 2
      and depth = 1 and st = "after_home\<lparr>queue := ?rest\<rparr>" and url = seed
      and p = "\<lparr>scheme = ''http'', netloc = ''example.com'', path = []\<rparr>"
      and output_file = "''out.json''"]
    g h l p s z
  show ?thesis by simp
qed

section \<open>A page without container and body\<close>

lemma head_of_is_tag: "head_of e = head_of e' \<Longrightarrow> is_tag x e = is_tag x e'"
  by (cases e; cases e') simp_all

lemma head_of_matches_selector:
  "head_of e = head_of e' \<Longrightarrow> matches_selector sel e = matches_selector sel e'"
  by (cases e; cases e'; cases sel) (simp_all add: attr_matches_def)

text \<open>Removing subtrees brings no new tag: every tag left was there before, children apart.\<close>

lemma decompose_below_heads:
  "head_of ` set (subtree_tags (decompose_below ns n)) \<subseteq> head_of ` set (subtree_tags n)"
proof (induction n)
  case (Text s)
  show ?case by simp
next
  case (Element t a cs)
  have "head_of ` set (subtree_tags (decompose_below ns c)) \<subseteq>
        head_of ` set (subtree_tags (Element t a cs))" if "c \<in> set cs" for c
  proof -
    from Element.IH [OF that]
    have "head_of ` set (subtree_tags (decompose_below ns c)) \<subseteq> head_of ` set (subtree_tags c)" .
    also from that have "\<dots> \<subseteq> head_of ` set (subtree_tags (Element t a cs))" by auto
    finally show ?thesis .
  qed
  then show ?case by auto
qed

lemma decompose_all_heads:
  "head_of ` set (all_tags (decompose_all ns d)) \<subseteq> head_of ` set (all_tags d)"
proof
  fix h assume "h \<in> head_of ` set (all_tags (decompose_all ns d))"
  then obtain c where c: "c \<in> set d" and h: "h \<in> head_of ` set (subtree_tags (decompose_below ns c))"
    by (auto simp: all_tags_def decompose_all_def)
  from h decompose_below_heads [of ns c] have "h \<in> head_of ` set (subtree_tags c)" by blast
  with c show "h \<in> head_of ` set (all_tags d)" by (auto simp: all_tags_def)
qed

lemma first_container_None:
  "(\<forall>sel \<in> set sels. select_one sel d = None) \<Longrightarrow> first_container d sels = None"
  by (induction sels) simp_all

lemma no_container:
  assumes "\<forall>e \<in> set (all_tags d). \<not> is_tag ''body'' e \<and> \<not> list_ex (\<lambda>sel. matches_selector sel e) selectors"
  shows "content_container (decompose_all unwanted d) = None"
proof -
  let ?d' = "decompose_all unwanted d"
  have old: "\<exists>e \<in> set (all_tags d). head_of e = head_of e'" if "e' \<in> set (all_tags ?d')" for e'
  proof -
    from that have "head_of e' \<in> head_of ` set (all_tags ?d')" by simp
    with decompose_all_heads [of unwanted d] have "head_of e' \<in> head_of ` set (all_tags d)"
      by blast
    then show ?thesis by (metis imageE)
  qed
  have body: "soup_find (is_tag ''body'') ?d' = None"
  proof -
    have "\<not> is_tag ''body'' e'" if "e' \<in> set (all_tags ?d')" for e'
    proof -
      from old [OF that] obtain e where "e \<in> set (all_tags d)" and "head_of e = head_of e'"
        by blast
      with assms head_of_is_tag [of e e' "''body''"] show ?thesis by blast
    qed
    then show ?thesis by (auto simp: soup_find_def find_None_iff)
  qed
  have "select_one sel ?d' = None" if sel: "sel \<in> set selectors" for sel
  proof -
    have "\<not> matches_selector sel e'" if "e' \<in> set (all_tags ?d')" for e'
    proof -
      from old [OF that] obtain e where e: "e \<in> set (all_tags d)" and "head_of e = head_of e'"
        by blast
      then have "matches_selector sel e' = matches_selector sel e"
        using head_of_matches_selector [of e e' sel] by simp
      moreover from assms e sel have "\<not> matches_selector sel e"
        by (auto simp: list_ex_iff)
      ultimately show ?thesis by simp
    qed
    then show ?thesis by (auto simp: select_one_def soup_find_def find_None_iff)
  qed
  then have "first_container ?d' selectors = None"
    by (intro first_container_None) blast
  with body show ?thesis by (simp add: content_container_def)
qed

text \<open>
  C10: a document in which no tag is a \<open>body\<close> and no tag matches one of the six
  selectors makes \<open>extract_content\<close> raise the \<open>AttributeError\<close> of \<open>None.find_all\<close>.
  In the crawl, a page with such a document raises (in \<open>extract_title\<close> already, or
  else here), the pass leaves the state as it was but for the two printed lines, and the
  loop goes on with the rest of the queue. The witness is the page \<open>/b\<close> of the example
  site.
\<close>

theorem missing_body_raises:
  "(\<forall>e \<in> set (all_tags d).
      \<not> is_tag ''body'' e \<and> \<not> list_ex (\<lambda>sel. matches_selector sel e) selectors) \<Longrightarrow>
   extract_content d = Inl none_find_all \<and>
   (http_get W cur = Inr d \<longrightarrow>
      fetch_and_extract W cur =
        Inl (case extract_title d of Inl e \<Rightarrow> e | Inr t \<Rightarrow> none_find_all) \<and>
      iteration W bd mp md cur depth st =
        st\<lparr>console := console st @
             [scraping_line st mp cur,
              error_line cur (case extract_title d of Inl e \<Rightarrow> e | Inr t \<Rightarrow> none_find_all)]\<rparr> \<and>
      (queue st = (cur, depth) # rest \<and> int (length (results st)) < mp \<longrightarrow>
         crawl_loop W bd mp md st =
         crawl_loop W bd mp md
           (st\<lparr>queue := rest,
                console := console st @
                  [scraping_line st mp cur,
                   error_line cur (case extract_title d of Inl e \<Rightarrow> e | Inr t \<Rightarrow> none_find_all)]\<rparr>)))"
proof -
  assume bare: "\<forall>e \<in> set (all_tags d).
      \<not> is_tag ''body'' e \<and> \<not> list_ex (\<lambda>sel. matches_selector sel e) selectors"
  let ?e = "case extract_title d of Inl e \<Rightarrow> e | Inr t \<Rightarrow> none_find_all"
  have c: "extract_content d = Inl none_find_all"
    using no_container [OF bare] by (simp add: extract_content_def)
  have f: "fetch_and_extract W cur = Inl ?e" if "http_get W cur = Inr d"
    using that c by (simp add: fetch_and_extract_def split: sum.splits)
  have i: "iteration W bd mp md cur depth st =
        st\<lparr>console := console st @ [scraping_line st mp cur, error_line cur ?e]\<rparr>"
    if "http_get W cur = Inr d"
    using iteration_failure [OF f [OF that]] .
  have l: "crawl_loop W bd mp md st =
         crawl_loop W bd mp md
           (st\<lparr>queue := rest,
                console := console st @ [scraping_line st mp cur, error_line cur ?e]\<rparr>)"
    if "http_get W cur = Inr d" and "queue st = (cur, depth) # rest"
      and "int (length (results st)) < mp"
    using crawl_loop_failure [OF f [OF that(1)] that(2,3)] .
  from c f i l show ?thesis by blast
qed

theorem missing_body_raises_witness:
  "all_tags bare_page = [Element ''h1'' [] [Text ''B'']] \<and>
   extract_content bare_page = Inl none_find_all \<and>
   http_get example_web ''http://example.com/b'' = Inr bare_page \<and>
   extract_title bare_page = Inr ''B'' \<and>
   fetch_and_extract example_web ''http://example.com/b'' = Inl none_find_all \<and>
   results (iteration example_web ''example.com'' 20 2 ''http://example.com/b'' 1 (initial seed))
     = [] \<and>
   queue (iteration example_web ''example.com'' 20 2 ''http://example.com/b'' 1 (initial seed))
     = [(seed, 0)] \<and>
   console (iteration example_web ''example.com'' 20 2 ''http://example.com/b'' 1 (initial seed))
     = [''Scraping page 1/20: http://example.com/b'',
        error_line ''http://example.com/b'' none_find_all]"
proof -
  have t: "all_tags bare_page = [Element ''h1'' [] [Text ''B'']]"
    by (simp add: bare_page_def all_tags_def)
  have bare: "\<forall>e \<in> set (all_tags bare_page).
      \<not> is_tag ''body'' e \<and> \<not> list_ex (\<lambda>sel. matches_selector sel e) selectors"
    unfolding t by (simp add: selectors_def attr_matches_def)
  have g: "http_get example_web ''http://example.com/b'' = Inr bare_page"
    by (simp add: example_web_def example_get_def)
  have x: "extract_title bare_page = Inr ''B''"
    by code_simp
  have s: "scraping_line (initial seed) 20 ''http://example.com/b'' =
      ''Scraping page 1/20: http://example.com/b''"
    by code_simp
  from missing_body_raises [OF bare, of example_web "''http://example.com/b''"
      "''example.com''" 20 2 1 "initial seed"] t g x s
  show ?thesis by (simp add: initial_def)
qed

end
